theory Spec2Isabelle
  imports Complex_Main "HOL-Library.Sublist"
begin

section \<open>Numeric primitives\<close>

text \<open>
  Scalar parameters are modelled as real numbers, and tensor elements as real numbers or
  one of the special values of the float format (see \<open>fval\<close> below). The primitives are
  the torch functions that \<^verbatim>\<open>models/qmodules.py\<close> calls, with their documented
  meaning. Of the float32 format the model keeps what changes the control or the values by
  more than rounding: the underflow of \<^verbatim>\<open>softplus\<close> to zero, and the infinities and
  NaN that a division by a zero scale produces. The rounding error of finite results and
  their overflow are outside this model.
\<close>

definition torch_round :: "real \<Rightarrow> real" where
  \<comment> \<open>\<^verbatim>\<open>torch.round\<close>: to the nearest integer, a tie to the even neighbour\<close>
  "torch_round x =
     (let f = \<lfloor>x\<rfloor>; d = x - of_int f
      in if d < 1 / 2 then of_int f
         else if 1 / 2 < d then of_int (f + 1)
         else if even f then of_int f else of_int (f + 1))"

definition sigmoid :: "real \<Rightarrow> real" where
  "sigmoid x = 1 / (1 + exp (- x))"

definition softplus :: "real \<Rightarrow> real" where
  \<comment> \<open>\<^verbatim>\<open>F.softplus\<close> with its defaults \<^verbatim>\<open>beta=1, threshold=20\<close>, which is
      \<^verbatim>\<open>log1p(exp(x))\<close> up to the threshold. In float32 \<^verbatim>\<open>exp(x)\<close> is zero
      below \<open>2 ^ -150\<close>, that is for \<open>x\<close> below \<open>-150 * ln 2\<close> (about \<open>-103.97\<close>), and
      then the result is exactly zero\<close>
  "softplus x =
     (if 20 < x then x
      else if x < - (150 * ln 2) then 0
      else ln (1 + exp x))"

definition clamp :: "real \<Rightarrow> real \<Rightarrow> real \<Rightarrow> real" where
  "clamp v lo hi = min (max v lo) hi"

definition hard_quant :: "real \<Rightarrow> real" where
  \<comment> \<open>the value of \<^verbatim>\<open>(y_out - y_grad).detach() + y_grad\<close> on a finite number\<close>
  "hard_quant x = (let y_out = torch_round x; y_grad = x in (y_out - y_grad) + y_grad)"

subsection \<open>Tensor elements\<close>

text \<open>
  A tensor element is a finite number, an infinity or NaN. The operations below are those
  that \<^verbatim>\<open>_quant\<close> and \<^verbatim>\<open>noise_quant\<close> apply to an element, each with a finite
  scalar as its second operand, and follow IEEE 754 on the special values: a non-zero
  number divided by zero is an infinity, \<open>0 / 0\<close>, \<open>inf - inf\<close> and \<open>inf * 0\<close> are NaN, NaN is
  handed on, and \<^verbatim>\<open>torch.clamp\<close> maps an infinity to the bound and NaN to NaN. The
  scale is never negative and its zero is the positive zero.
\<close>

datatype fval = Fin real | PInf | NInf | NaN

fun fadd :: "fval \<Rightarrow> real \<Rightarrow> fval" where
  "fadd (Fin x) r = Fin (x + r)"
| "fadd PInf r = PInf"
| "fadd NInf r = NInf"
| "fadd NaN r = NaN"

fun fsub :: "fval \<Rightarrow> real \<Rightarrow> fval" where
  "fsub (Fin x) r = Fin (x - r)"
| "fsub PInf r = PInf"
| "fsub NInf r = NInf"
| "fsub NaN r = NaN"

fun fmul :: "fval \<Rightarrow> real \<Rightarrow> fval" where
  "fmul (Fin x) r = Fin (x * r)"
| "fmul PInf r = (if 0 < r then PInf else if r < 0 then NInf else NaN)"
| "fmul NInf r = (if 0 < r then NInf else if r < 0 then PInf else NaN)"
| "fmul NaN r = NaN"

fun fdiv :: "fval \<Rightarrow> real \<Rightarrow> fval" where
  "fdiv (Fin x) r =
     (if r = 0 then (if 0 < x then PInf else if x < 0 then NInf else NaN)
      else Fin (x / r))"
| "fdiv PInf r = (if 0 \<le> r then PInf else NInf)"
| "fdiv NInf r = (if 0 \<le> r then NInf else PInf)"
| "fdiv NaN r = NaN"

fun fclamp :: "fval \<Rightarrow> real \<Rightarrow> real \<Rightarrow> fval" where
  "fclamp (Fin x) lo hi = Fin (clamp x lo hi)"
| "fclamp PInf lo hi = Fin hi"
| "fclamp NInf lo hi = Fin lo"
| "fclamp NaN lo hi = NaN"

fun hard_quant_elem :: "fval \<Rightarrow> fval" where
  \<comment> \<open>\<^verbatim>\<open>hard_quant\<close> on an element: \<^verbatim>\<open>round\<close> keeps an infinity, and
      \<^verbatim>\<open>y_out - y_grad\<close> is then \<open>inf - inf\<close>\<close>
  "hard_quant_elem (Fin x) = Fin (hard_quant x)"
| "hard_quant_elem PInf = NaN"
| "hard_quant_elem NInf = NaN"
| "hard_quant_elem NaN = NaN"

section \<open>Errors\<close>

datatype error =
    NotImplementedError
  | AttributeError
  | AssertionError
  | RuntimeError
  | TypeError
  | ZeroDivisionError
  | IndexError
  | ValueError
  | SystemExit

section \<open>Activation tags\<close>

text \<open>
  A tag is a string of the code points below 256 (Latin-1), one \<open>char\<close> each. On these
  \<^verbatim>\<open>str.lower\<close> maps character by character: \<open>A\<close> to \<open>Z\<close> and the accented capitals
  \<open>0xC0\<close> to \<open>0xDE\<close> (but the sign \<open>0xD7\<close>) move up by 32. \<^verbatim>\<open>str.isdigit\<close> holds of
  \<open>0\<close> to \<open>9\<close> and of the superscripts \<open>0xB2\<close>, \<open>0xB3\<close> and \<open>0xB9\<close>, and \<^verbatim>\<open>float\<close>
  of one character returns for \<open>0\<close> to \<open>9\<close> and raises \<^verbatim>\<open>ValueError\<close> for every other.
\<close>

definition latin1_upper :: string where
  \<comment> \<open>the capitals \<open>0xC0\<close> to \<open>0xDE\<close> without the sign \<open>0xD7\<close>\<close>
  "latin1_upper =
     [CHR 0xC0, CHR 0xC1, CHR 0xC2, CHR 0xC3, CHR 0xC4, CHR 0xC5, CHR 0xC6, CHR 0xC7,
      CHR 0xC8, CHR 0xC9, CHR 0xCA, CHR 0xCB, CHR 0xCC, CHR 0xCD, CHR 0xCE, CHR 0xCF,
      CHR 0xD0, CHR 0xD1, CHR 0xD2, CHR 0xD3, CHR 0xD4, CHR 0xD5, CHR 0xD6, CHR 0xD8,
      CHR 0xD9, CHR 0xDA, CHR 0xDB, CHR 0xDC, CHR 0xDD, CHR 0xDE]"

definition latin1_lower :: string where
  \<comment> \<open>their small letters, 32 code points up\<close>
  "latin1_lower =
     [CHR 0xE0, CHR 0xE1, CHR 0xE2, CHR 0xE3, CHR 0xE4, CHR 0xE5, CHR 0xE6, CHR 0xE7,
      CHR 0xE8, CHR 0xE9, CHR 0xEA, CHR 0xEB, CHR 0xEC, CHR 0xED, CHR 0xEE, CHR 0xEF,
      CHR 0xF0, CHR 0xF1, CHR 0xF2, CHR 0xF3, CHR 0xF4, CHR 0xF5, CHR 0xF6, CHR 0xF8,
      CHR 0xF9, CHR 0xFA, CHR 0xFB, CHR 0xFC, CHR 0xFD, CHR 0xFE]"

definition lower_char :: "char \<Rightarrow> char" where
  "lower_char c =
     (case map_of (zip (''ABCDEFGHIJKLMNOPQRSTUVWXYZ'' @ latin1_upper)
                       (''abcdefghijklmnopqrstuvwxyz'' @ latin1_lower)) c of
        Some l \<Rightarrow> l
      | None \<Rightarrow> c)"

definition lower :: "string \<Rightarrow> string" where
  \<comment> \<open>\<^verbatim>\<open>str.lower\<close>\<close>
  "lower s = map lower_char s"

definition isdigit :: "char \<Rightarrow> bool" where
  \<comment> \<open>\<^verbatim>\<open>str.isdigit\<close> of one character\<close>
  "isdigit c = (c \<in> set ''0123456789'' \<or> c \<in> {CHR 0xB2, CHR 0xB3, CHR 0xB9})"

definition float_of_char :: "char \<Rightarrow> error + real" where
  \<comment> \<open>\<^verbatim>\<open>float(c)\<close> of one character\<close>
  "float_of_char c =
     (case map_of (zip ''0123456789'' [0, 1, 2, 3, 4, 5, 6, 7, 8, 9]) c of
        Some v \<Rightarrow> Inr v
      | None \<Rightarrow> Inl ValueError)"

section \<open>The quantizer\<close>

datatype offset = Scalar real | PerChannel "real list"

record quantizer =
  symm :: bool
  offset :: "offset option"
  raw_bitwidth :: real              \<comment> \<open>the parameter \<^verbatim>\<open>_bitwidth\<close>\<close>
  bitwidth_requires_grad :: bool    \<comment> \<open>\<^verbatim>\<open>_bitwidth.requires_grad\<close>\<close>
  raw_alpha :: real                 \<comment> \<open>the parameter \<^verbatim>\<open>_alpha\<close>\<close>
  training :: bool                  \<comment> \<open>\<^verbatim>\<open>nn.Module.training\<close>\<close>

definition init_offset :: "string \<Rightarrow> error + real" where
  \<comment> \<open>the \<^verbatim>\<open>if / elif / else\<close> chain of \<^verbatim>\<open>Quantizer.__init__\<close> on the lowered tag\<close>
  "init_offset act_func =
     (if sublist ''relu'' act_func then Inr 0
      else if sublist ''swish'' act_func then
        (if CHR ''h'' \<in> set (take 2 act_func) then Inr 0.3125
         else Inr 0.2784645427610738)
      else Inl NotImplementedError)"

definition init_alpha :: "bool \<Rightarrow> string \<Rightarrow> error + real" where
  \<comment> \<open>the trailing digit of the tag is read with \<^verbatim>\<open>float\<close>, which may raise, and the
      value is then overwritten by \<^verbatim>\<open>6.0\<close>, as in the source\<close>
  "init_alpha sy act_func =
     (let a0 = 0 in
      if sy then Inr 1
      else if sublist ''relu'' act_func \<or> sublist ''swish'' act_func then
        (case (if isdigit (last act_func) then float_of_char (last act_func) else Inr a0) of
           Inl e \<Rightarrow> Inl e
         | Inr a1 \<Rightarrow> (let a2 = 6 in Inr a2))
      else Inr a0)"

definition Quantizer_init :: "bool \<Rightarrow> string option \<Rightarrow> error + quantizer" where
  "Quantizer_init sy act_func =
     (if \<not> sy then
        (case act_func of
           None \<Rightarrow> Inl AttributeError
         | Some a \<Rightarrow>
             (let a' = lower a in
              case init_offset a' of
                Inl e \<Rightarrow> Inl e
              | Inr off \<Rightarrow>
                  (case init_alpha sy a' of
                     Inl e \<Rightarrow> Inl e
                   | Inr a0 \<Rightarrow>
                       Inr \<lparr>symm = sy, offset = Some (Scalar off), raw_bitwidth = 2.5,
                            bitwidth_requires_grad = True, raw_alpha = a0,
                            training = True\<rparr>)))
      else
        Inr \<lparr>symm = sy, offset = None, raw_bitwidth = 2.5,
             bitwidth_requires_grad = True, raw_alpha = 1, training = True\<rparr>)"

definition logit2bit :: "real \<Rightarrow> real" where
  "logit2bit logit = (let r = 6.5 in 2.0 + sigmoid logit * r)"

definition bitwidth :: "quantizer \<Rightarrow> real" where
  "bitwidth q =
     (if bitwidth_requires_grad q then logit2bit (raw_bitwidth q)
      else torch_round (logit2bit (raw_bitwidth q)))"

definition alpha :: "quantizer \<Rightarrow> real" where
  "alpha q = softplus (raw_alpha q)"

section \<open>Quantized operators\<close>

record conv2d =
  in_channels :: nat
  out_channels :: nat
  kernel_size :: nat                \<comment> \<open>\<^verbatim>\<open>kernel_size[0]\<close>\<close>
  weight :: "real list"             \<comment> \<open>the elements of the weight tensor\<close>
  in_height :: "nat option"         \<comment> \<open>the four attributes exist once a hook has set them\<close>
  in_width :: "nat option"
  out_height :: "nat option"
  out_width :: "nat option"

record q_conv2d = conv2d +          \<comment> \<open>\<^verbatim>\<open>class Q_Conv2d(nn.Conv2d)\<close>\<close>
  a_quant :: quantizer
  w_quant :: quantizer

record q_linear =
  in_features :: nat
  out_features :: nat
  lin_weight :: "real list"
  lin_a_quant :: quantizer
  lin_w_quant :: quantizer

definition Q_Conv2d_init ::
  "nat \<Rightarrow> nat \<Rightarrow> nat \<Rightarrow> real list \<Rightarrow> string option \<Rightarrow> error + q_conv2d" where
  \<comment> \<open>\<^verbatim>\<open>w\<close> is the weight that \<^verbatim>\<open>nn.Conv2d.__init__\<close> draws\<close>
  "Q_Conv2d_init c1 c2 k w act_func =
     (let sy = (if act_func = None then True else False) in
      case Quantizer_init sy act_func of
        Inl e \<Rightarrow> Inl e
      | Inr aq \<Rightarrow>
          (case Quantizer_init sy act_func of
             Inl e \<Rightarrow> Inl e
           | Inr wq \<Rightarrow>
               Inr \<lparr>in_channels = c1, out_channels = c2, kernel_size = k, weight = w,
                    in_height = None, in_width = None, out_height = None, out_width = None,
                    a_quant = aq, w_quant = wq\<rparr>))"

definition Q_Linear_init ::
  "nat \<Rightarrow> nat \<Rightarrow> real list \<Rightarrow> string option \<Rightarrow> error + q_linear" where
  "Q_Linear_init n_in n_out w act_func =
     (let sy = (if act_func = None then True else False) in
      case Quantizer_init sy act_func of
        Inl e \<Rightarrow> Inl e
      | Inr aq \<Rightarrow>
          (case Quantizer_init sy act_func of
             Inl e \<Rightarrow> Inl e
           | Inr wq \<Rightarrow>
               Inr \<lparr>in_features = n_in, out_features = n_out, lin_weight = w,
                    lin_a_quant = aq, lin_w_quant = wq\<rparr>))"

definition Q_Conv_init :: "nat \<Rightarrow> nat \<Rightarrow> nat \<Rightarrow> real list \<Rightarrow> error + q_conv2d" where
  \<comment> \<open>the field \<^verbatim>\<open>conv\<close> that \<^verbatim>\<open>Q_Conv.__init__\<close> builds\<close>
  "Q_Conv_init c1 c2 k w =
     (case Q_Conv2d_init c1 c2 k w (Some (if c1 = 3 then ''relu1'' else ''swish'')) of
        Inl e \<Rightarrow> Inl e
      | Inr conv \<Rightarrow>
          if c1 = 3 \<or> c1 = 32 then
            Inr (conv\<lparr>a_quant := (a_quant conv)\<lparr>bitwidth_requires_grad := False\<rparr>,
                      w_quant := (w_quant conv)\<lparr>bitwidth_requires_grad := False\<rparr>\<rparr>)
          else Inr conv)"

fun Q_Detect_init :: "nat \<Rightarrow> (nat \<times> real list) list \<Rightarrow> error + q_conv2d list" where
  \<comment> \<open>the list \<^verbatim>\<open>m\<close> of output convolutions, one per entry of \<^verbatim>\<open>ch\<close>;
      \<^verbatim>\<open>c_out\<close> is \<^verbatim>\<open>no * na\<close>\<close>
  "Q_Detect_init c_out [] = Inr []"
| "Q_Detect_init c_out ((x, w) # ch) =
     (case Q_Conv2d_init x c_out 1 w None of
        Inl e \<Rightarrow> Inl e
      | Inr m \<Rightarrow>
          (case Q_Detect_init c_out ch of
             Inl e \<Rightarrow> Inl e
           | Inr ms \<Rightarrow> Inr (m # ms)))"

datatype module = Q_Conv2d q_conv2d | Q_Linear q_linear | Conv2d conv2d | Other

section \<open>The BOPs cost model\<close>





definition offset_of :: "error + quantizer \<Rightarrow> error + offset option" where
  \<comment> \<open>the offset of a constructed quantizer, or the error of the construction\<close>
  "offset_of r = (case r of Inl e \<Rightarrow> Inl e | Inr q \<Rightarrow> Inr (offset q))"

section \<open>Tensors and random generators\<close>

datatype device = CPU | CUDA nat

text \<open>
  An activation or weight tensor is its device and its elements, grouped by channel (the
  view \<^verbatim>\<open>permute(...).reshape([num_channels, -1])\<close> of the calibration hook): row
  \<open>c\<close> holds every element of channel \<open>c\<close>.
\<close>

record tensor =
  dev :: device
  rows :: "fval list list"

definition is_cuda :: "tensor \<Rightarrow> bool" where
  "is_cuda t = (case dev t of CPU \<Rightarrow> False | CUDA _ \<Rightarrow> True)"

fun broadcast ::
  "(fval \<Rightarrow> real \<Rightarrow> fval) \<Rightarrow> fval list list \<Rightarrow> offset \<Rightarrow> error + fval list list" where
  \<comment> \<open>\<^verbatim>\<open>x + offset\<close> and \<^verbatim>\<open>x - offset\<close>: a scalar offset meets every element; an
      offset of shape \<^verbatim>\<open>[C, 1, 1]\<close> meets the channel axis under torch's broadcasting
      rule (equal sizes, or one of them 1, or an error)\<close>
  "broadcast f xs (Scalar b) = Inr (map (map (\<lambda>v. f v b)) xs)"
| "broadcast f xs (PerChannel bs) =
     (if length bs = length xs then Inr (map2 (\<lambda>r b. map (\<lambda>v. f v b) r) xs bs)
      else if length xs = 1 then Inr (map (\<lambda>b. map (\<lambda>v. f v b) (hd xs)) bs)
      else if length bs = 1 then Inr (map (map (\<lambda>v. f v (hd bs))) xs)
      else Inl RuntimeError)"

text \<open>
  The generators of torch are parameters of the model: the state a generator of a device has
  after seeding, and the uniform and the normal draw of a device's generator. The global
  random state holds one generator state per device.
\<close>

record 'g generators =
  seeded :: "device \<Rightarrow> int \<Rightarrow> 'g"
  uniform :: "device \<Rightarrow> 'g \<Rightarrow> real \<times> 'g"
  normal :: "device \<Rightarrow> 'g \<Rightarrow> real \<times> 'g"

type_synonym 'g rng = "device \<Rightarrow> 'g"

definition int_of_real :: "real \<Rightarrow> int" where
  \<comment> \<open>Python's \<^verbatim>\<open>int(seed)\<close>: truncation towards zero\<close>
  "int_of_real r = (if 0 \<le> r then \<lfloor>r\<rfloor> else \<lceil>r\<rceil>)"

definition manual_seed :: "'g generators \<Rightarrow> real \<Rightarrow> 'g rng" where
  \<comment> \<open>\<^verbatim>\<open>torch.manual_seed\<close> seeds the generator of every device\<close>
  "manual_seed G s = (\<lambda>d. seeded G d (int_of_real s))"

definition rand :: "'g generators \<Rightarrow> device \<Rightarrow> 'g rng \<Rightarrow> real \<times> 'g rng" where
  \<comment> \<open>\<^verbatim>\<open>torch.rand(1, device=d)[0]\<close>\<close>
  "rand G d st = (let (v, g) = uniform G d (st d) in (v, st(d := g)))"

definition randn :: "'g generators \<Rightarrow> device \<Rightarrow> 'g rng \<Rightarrow> real \<times> 'g rng" where
  \<comment> \<open>\<^verbatim>\<open>torch.randn(1, device=d)[0]\<close>\<close>
  "randn G d st = (let (v, g) = normal G d (st d) in (v, st(d := g)))"

section \<open>The stochastic rounding estimator\<close>

definition noise_quant_forward_on ::
  "'g generators \<Rightarrow> device \<Rightarrow> 'g rng \<Rightarrow> tensor \<Rightarrow> real \<Rightarrow> tensor \<times> real \<times> 'g rng" where
  \<comment> \<open>one branch of \<^verbatim>\<open>noise_quant.forward\<close>; the result is \<^verbatim>\<open>t1\<close>, the seed saved in
      \<^verbatim>\<open>ctx\<close> and the random state left behind\<close>
  "noise_quant_forward_on G d st x step =
     (let (rseed, st1) = rand G d st;
          st2 = manual_seed G rseed;
          (n, st3) = randn G d st2;
          t1 = x\<lparr>rows := map (map (\<lambda>v. fadd v (torch_round (n / 2) * step))) (rows x)\<rparr>
      in (t1, rseed, st3))"

definition noise_quant_forward ::
  "'g generators \<Rightarrow> 'g rng \<Rightarrow> tensor \<Rightarrow> real \<Rightarrow> tensor \<times> real \<times> 'g rng" where
  "noise_quant_forward G st x step =
     (if is_cuda x then noise_quant_forward_on G (CUDA 0) st x step
      else noise_quant_forward_on G CPU st x step)"

definition forward_multiplier :: "'g generators \<Rightarrow> 'g rng \<Rightarrow> tensor \<Rightarrow> real" where
  \<comment> \<open>the factor \<^verbatim>\<open>torch.round(torch.randn(1, device=...)[0]/2)\<close> of the forward pass\<close>
  "forward_multiplier G st x =
     (let d = (if is_cuda x then CUDA 0 else CPU);
          (rseed, st1) = rand G d st;
          (n, st3) = randn G d (manual_seed G rseed)
      in torch_round (n / 2))"

definition noise_quant_backward ::
  "'g generators \<Rightarrow> real \<Rightarrow> 'a \<Rightarrow> ('a \<times> real) \<times> 'g rng" where
  \<comment> \<open>\<^verbatim>\<open>noise_quant.backward\<close> on the saved seed: \<^verbatim>\<open>torch.randn(1)\<close> draws on the
      default device, the CPU\<close>
  "noise_quant_backward G rseed grad_output =
     (let st1 = manual_seed G rseed;
          (n, st2) = randn G CPU st1;
          grad_step = torch_round (n / 2)
      in ((grad_output, grad_step), st2))"

section \<open>Quantization\<close>

definition quant ::
  "'g generators \<Rightarrow> quantizer \<Rightarrow> tensor \<Rightarrow> bool \<Rightarrow> 'g rng \<Rightarrow>
     error + (tensor \<times> real option \<times> 'g rng)" where
  \<comment> \<open>\<^verbatim>\<open>Quantizer._quant\<close>. The result is the tensor, the seed that
      \<^verbatim>\<open>noise_quant\<close> saved for its backward pass (\<open>None\<close> when it did not run) and
      the random state left behind\<close>
  "quant G q x is_training st =
     (let bitwidth' = hard_quant (bitwidth q);
          alpha0 = alpha q;
          (offset', alpha') =
            (if symm q
             then (Some (Scalar alpha0), (2 - 2 powr (- bitwidth' + 1)) * alpha0)
             else (offset q, alpha0));
          n_lv = 2 powr bitwidth' - 1;
          n_lv_inv = 1 / n_lv;
          step = alpha' * n_lv_inv
      in case offset' of
           None \<Rightarrow> Inl (if is_cuda x then TypeError else AttributeError)
         | Some off \<Rightarrow>
             (case broadcast fadd (rows x) off of
                Inl e \<Rightarrow> Inl e
              | Inr xs \<Rightarrow>
                  if is_training \<and> bitwidth_requires_grad q then
                    (let (t1, rseed, st') = noise_quant_forward G st (x\<lparr>rows := xs\<rparr>) step;
                         ys = map (map (\<lambda>v. fmul (fclamp (fdiv v alpha') 0 1) alpha')) (rows t1)
                     in case broadcast fsub ys off of
                          Inl e \<Rightarrow> Inl e
                        | Inr zs \<Rightarrow> Inr (x\<lparr>rows := zs\<rparr>, Some rseed, st'))
                  else
                    (let ys = map (map (\<lambda>v. fmul (hard_quant_elem
                                               (fmul (fclamp (fdiv v alpha') 0 1) n_lv)) step)) xs
                     in case broadcast fsub ys off of
                          Inl e \<Rightarrow> Inl e
                        | Inr zs \<Rightarrow> Inr (x\<lparr>rows := zs\<rparr>, None, st))))"

definition forward ::
  "'g generators \<Rightarrow> quantizer \<Rightarrow> tensor \<Rightarrow> 'g rng \<Rightarrow> error + (tensor \<times> real option \<times> 'g rng)" where
  "forward G q x st = quant G q x (training q) st"

section \<open>The calibration pass\<close>

fun optimal_i_loop :: "real \<Rightarrow> real \<Rightarrow> nat list \<Rightarrow> real \<times> int \<Rightarrow> real \<times> int" where
  "optimal_i_loop target unit [] (min_err, min_err_i) = (min_err, min_err_i)"
| "optimal_i_loop target unit (i # is) (min_err, min_err_i) =
     (let err = \<bar>target - unit * real i\<bar>
      in if min_err > err then optimal_i_loop target unit is (err, int i)
         else optimal_i_loop target unit is (min_err, min_err_i))"

definition optimal_i :: "real \<Rightarrow> real \<Rightarrow> error + int" where
  \<comment> \<open>\<^verbatim>\<open>exit()\<close> raises \<^verbatim>\<open>SystemExit\<close>\<close>
  "optimal_i target unit =
     (let (min_err, min_err_i) = optimal_i_loop target unit [0..<5] (100, - 1)
      in if min_err_i = - 1 then Inl SystemExit else Inr min_err_i)"

definition tensor_min :: "real list \<Rightarrow> error + real" where
  \<comment> \<open>\<^verbatim>\<open>.min()\<close> raises on a tensor with no element\<close>
  "tensor_min xs = (case xs of [] \<Rightarrow> Inl RuntimeError | y # ys \<Rightarrow> Inr (fold min ys y))"

definition tensor_max :: "real list \<Rightarrow> error + real" where
  "tensor_max xs = (case xs of [] \<Rightarrow> Inl RuntimeError | y # ys \<Rightarrow> Inr (fold max ys y))"

definition mean :: "real list \<Rightarrow> real" where
  "mean xs = sum_list xs / real (length xs)"

definition assign_slice :: "'a list \<Rightarrow> nat \<Rightarrow> 'a list \<Rightarrow> 'a list" where
  \<comment> \<open>\<^verbatim>\<open>xs[i0 : i0 + len(vs)] = vs\<close>\<close>
  "assign_slice xs i0 vs = take i0 xs @ vs @ drop (i0 + length vs) xs"

definition group_step ::
  "real list \<Rightarrow> real \<Rightarrow> nat \<Rightarrow> nat \<Rightarrow> nat \<Rightarrow> real list \<times> real list \<Rightarrow>
     error + (real list \<times> real list)" where
  \<comment> \<open>the body of the loop of \<^verbatim>\<open>group_err\<close> on \<^verbatim>\<open>(arr_err, arr_off)\<close>\<close>
  "group_step arr offs g elem_per_group i s =
     (let (arr_err, arr_off) = s;
          i0 = i * elem_per_group;
          i1 = (i + 1) * elem_per_group;
          seg = (if i = g - 1 then drop i0 arr else take (i1 - i0) (drop i0 arr))
      in case tensor_min seg of
           Inl e \<Rightarrow> Inl e
         | Inr m \<Rightarrow>
             (case optimal_i m offs of
                Inl e \<Rightarrow> Inl e
              | Inr oi \<Rightarrow>
                  (let off_unit = offs * real_of_int oi
                   in Inr (assign_slice arr_err i0 (map (\<lambda>v. \<bar>v - off_unit\<bar>) seg),
                           assign_slice arr_off i0 (map (\<lambda>v. v - v + off_unit) seg)))))"

fun group_err_loop ::
  "real list \<Rightarrow> real \<Rightarrow> nat \<Rightarrow> nat \<Rightarrow> nat list \<Rightarrow> real list \<times> real list \<Rightarrow>
     error + (real list \<times> real list)" where
  "group_err_loop arr offs g elem_per_group [] s = Inr s"
| "group_err_loop arr offs g elem_per_group (i # is) s =
     (case group_step arr offs g elem_per_group i s of
        Inl e \<Rightarrow> Inl e
      | Inr s' \<Rightarrow> group_err_loop arr offs g elem_per_group is s')"

definition group_err :: "real list \<Rightarrow> real \<Rightarrow> nat \<Rightarrow> error + (real \<times> real list)" where
  "group_err arr offs g =
     (let arr_len = length arr;
          arr_err = replicate arr_len 0;
          arr_off = replicate arr_len 0
      in if g = 0 then Inl ZeroDivisionError
         else
           (let elem_per_group = arr_len div g
            in case group_err_loop arr offs g elem_per_group [0..<g] (arr_err, arr_off) of
                 Inl e \<Rightarrow> Inl e
               | Inr (arr_err', arr_off') \<Rightarrow> Inr (mean arr_err', arr_off')))"

fun search_g_loop ::
  "real list \<Rightarrow> real \<Rightarrow> nat list \<Rightarrow> real \<times> nat \<Rightarrow> error + (real \<times> nat)" where
  "search_g_loop c_min unit [] (min_err, min_err_g) = Inr (min_err, min_err_g)"
| "search_g_loop c_min unit (g # gs) (min_err, min_err_g) =
     (case group_err c_min unit g of
        Inl e \<Rightarrow> Inl e
      | Inr (err, _) \<Rightarrow>
          if min_err > err then search_g_loop c_min unit gs (err, g)
          else search_g_loop c_min unit gs (min_err, min_err_g))"

definition search_g :: "real list \<Rightarrow> real \<Rightarrow> error + (real \<times> nat)" where
  \<comment> \<open>the loop \<^verbatim>\<open>for g in range(1, 5)\<close> of \<^verbatim>\<open>forward_off_hook\<close>: its
      \<^verbatim>\<open>(min_err, min_err_g)\<close>\<close>
  "search_g c_min unit = search_g_loop c_min unit [1..<5] (100, 0)"

text \<open>
  One call of a module's \<^verbatim>\<open>forward\<close> during the instrumented pass, as the hooks see it:
  the index of the module in \<^verbatim>\<open>model.modules()\<close>, the shapes of \<^verbatim>\<open>inputs[0]\<close> and of
  \<^verbatim>\<open>outputs\<close>, and the per-channel minima that torch computes from \<^verbatim>\<open>inputs[0]\<close>.
  The host model's own \<^verbatim>\<open>forward\<close> is not part of this module: the sample input is
  represented by the calls it leads to.
\<close>

record call =
  target :: nat
  in_shape :: "nat list"
  out_shape :: "nat list"
  c_min :: "real list"

definition shape_at :: "nat list \<Rightarrow> nat \<Rightarrow> error + nat" where
  "shape_at sh i = (if i < length sh then Inr (sh ! i) else Inl IndexError)"

definition forward_hook ::
  "bool \<Rightarrow> ('a conv2d_scheme) \<Rightarrow> call \<Rightarrow> error + ('a conv2d_scheme)" where
  "forward_hook channel_last m c =
     (let off = (if channel_last then 1 else 2)
      in case shape_at (in_shape c) off of Inl e \<Rightarrow> Inl e | Inr ih \<Rightarrow>
         (case shape_at (in_shape c) (off + 1) of Inl e \<Rightarrow> Inl e | Inr iw \<Rightarrow>
         (case shape_at (out_shape c) off of Inl e \<Rightarrow> Inl e | Inr oh \<Rightarrow>
         (case shape_at (out_shape c) (off + 1) of Inl e \<Rightarrow> Inl e | Inr ow \<Rightarrow>
            Inr (m\<lparr>in_height := Some ih, in_width := Some iw,
                   out_height := Some oh, out_width := Some ow\<rparr>)))))"

definition forward_off_hook :: "bool \<Rightarrow> q_conv2d \<Rightarrow> call \<Rightarrow> error + q_conv2d" where
  \<comment> \<open>\<^verbatim>\<open>-off\<close> raises when there is no offset; an offset that an earlier pass has
      made per channel (four elements or more) makes the comparison of \<^verbatim>\<open>optimal_i\<close>
      a tensor of several truth values, on which \<^verbatim>\<open>if\<close> raises\<close>
  "forward_off_hook channel_last m c =
     (if \<not> symm (a_quant m) then
        (let c_idx = (if channel_last then 3 else 1)
         in case shape_at (in_shape c) c_idx of
              Inl e \<Rightarrow> Inl e
            | Inr num_channels \<Rightarrow>
                if num_channels = 3 then Inr m
                else
                  (case offset (a_quant m) of
                     None \<Rightarrow> Inl TypeError
                   | Some (PerChannel _) \<Rightarrow> Inl RuntimeError
                   | Some (Scalar off) \<Rightarrow>
                       (case search_g (c_min c) (- off) of
                          Inl e \<Rightarrow> Inl e
                        | Inr (_, min_err_g) \<Rightarrow>
                            (case group_err (c_min c) (- off) min_err_g of
                               Inl e \<Rightarrow> Inl e
                             | Inr (_, arr_off) \<Rightarrow>
                                 Inr (m\<lparr>a_quant := (a_quant m)
                                        \<lparr>offset := Some (PerChannel (map uminus arr_off))\<rparr>\<rparr>)))))
      else Inr m)"

definition run_hooks :: "bool \<Rightarrow> module \<Rightarrow> call \<Rightarrow> error + module" where
  \<comment> \<open>the hooks registered on a module, in the order of their registration\<close>
  "run_hooks channel_last m c =
     (case m of
        Q_Conv2d qc \<Rightarrow>
          (case forward_hook channel_last qc c of
             Inl e \<Rightarrow> Inl e
           | Inr qc' \<Rightarrow>
               (case forward_off_hook channel_last qc' c of
                  Inl e \<Rightarrow> Inl e
                | Inr qc'' \<Rightarrow> Inr (Q_Conv2d qc'')))
      | Conv2d pc \<Rightarrow>
          (case forward_hook channel_last pc c of
             Inl e \<Rightarrow> Inl e
           | Inr pc' \<Rightarrow> Inr (Conv2d pc'))
      | Q_Linear l \<Rightarrow> Inr m
      | Other \<Rightarrow> Inr m)"

fun run_calls :: "bool \<Rightarrow> module list \<Rightarrow> call list \<Rightarrow> error + module list" where
  "run_calls channel_last model [] = Inr model"
| "run_calls channel_last model (c # cs) =
     (if target c < length model then
        (case run_hooks channel_last (model ! target c) c of
           Inl e \<Rightarrow> Inl e
         | Inr m' \<Rightarrow> run_calls channel_last (model[target c := m']) cs)
      else run_calls channel_last model cs)"

definition eval_quantizer :: "quantizer \<Rightarrow> quantizer" where
  "eval_quantizer q = q\<lparr>training := False\<rparr>"

definition eval_module :: "module \<Rightarrow> module" where
  \<comment> \<open>\<^verbatim>\<open>model.eval()\<close> on the quantizers of a module\<close>
  "eval_module m =
     (case m of
        Q_Conv2d c \<Rightarrow>
          Q_Conv2d (c\<lparr>a_quant := eval_quantizer (a_quant c), w_quant := eval_quantizer (w_quant c)\<rparr>)
      | Q_Linear l \<Rightarrow>
          Q_Linear (l\<lparr>lin_a_quant := eval_quantizer (lin_a_quant l),
                      lin_w_quant := eval_quantizer (lin_w_quant l)\<rparr>)
      | Conv2d c \<Rightarrow> m
      | Other \<Rightarrow> m)"

definition sample_activation_size :: "module list \<Rightarrow> call list \<Rightarrow> bool \<Rightarrow> error + module list" where
  "sample_activation_size model x channel_last = run_calls channel_last (map eval_module model) x"

section \<open>Initialization\<close>

definition initialize_module :: "string \<Rightarrow> module \<Rightarrow> error + module" where
  \<comment> \<open>the body of the loop of \<^verbatim>\<open>initialize_Q\<close>\<close>
  "initialize_module mode m =
     (case m of
        Q_Conv2d c \<Rightarrow>
          if mode = ''first'' then
            (case tensor_max (weight c) of
               Inl e \<Rightarrow> Inl e
             | Inr mx \<Rightarrow> Inr (Q_Conv2d (c\<lparr>w_quant := (w_quant c)\<lparr>raw_alpha := mx\<rparr>\<rparr>)))
          else
            Inr (Q_Conv2d (c\<lparr>w_quant := (w_quant c)\<lparr>bitwidth_requires_grad := False\<rparr>,
                            a_quant := (a_quant c)\<lparr>bitwidth_requires_grad := False\<rparr>\<rparr>))
      | Q_Linear l \<Rightarrow>
          if mode = ''first'' then
            (case tensor_max (lin_weight l) of
               Inl e \<Rightarrow> Inl e
             | Inr mx \<Rightarrow> Inr (Q_Linear (l\<lparr>lin_w_quant := (lin_w_quant l)\<lparr>raw_alpha := mx\<rparr>\<rparr>)))
          else
            Inr (Q_Linear (l\<lparr>lin_w_quant := (lin_w_quant l)\<lparr>bitwidth_requires_grad := False\<rparr>,
                            lin_a_quant := (lin_a_quant l)\<lparr>bitwidth_requires_grad := False\<rparr>\<rparr>))
      | Conv2d c \<Rightarrow> Inr m
      | Other \<Rightarrow> Inr m)"

fun initialize_loop :: "string \<Rightarrow> module list \<Rightarrow> error + module list" where
  "initialize_loop mode [] = Inr []"
| "initialize_loop mode (m # ms) =
     (case initialize_module mode m of
        Inl e \<Rightarrow> Inl e
      | Inr m' \<Rightarrow>
          (case initialize_loop mode ms of
             Inl e \<Rightarrow> Inl e
           | Inr ms' \<Rightarrow> Inr (m' # ms')))"

definition initialize_Q ::
  "module list \<Rightarrow> string \<Rightarrow> call list option \<Rightarrow> bool \<Rightarrow> error + module list" where
  "initialize_Q model mode sample_input channel_last =
     (if mode \<notin> set [''first'', ''finetune''] then Inl AssertionError
      else
        (case (if mode = ''first'' then
                 (case sample_input of
                    None \<Rightarrow> Inl AssertionError
                  | Some x \<Rightarrow> sample_activation_size model x channel_last)
               else Inr model) of
           Inl e \<Rightarrow> Inl e
         | Inr model' \<Rightarrow> initialize_loop mode model'))"

definition max_magnitude :: "real list \<Rightarrow> real" where
  \<comment> \<open>the largest absolute value of a non-empty list: the seed the specification names\<close>
  "max_magnitude xs = Max (set (map abs xs))"

section \<open>Concrete inputs for evaluation\<close>

definition example_generators :: "nat generators" where
  \<comment> \<open>generators whose CPU and CUDA streams differ, as those of torch do (a different
      algorithm on each kind of device); a generator state counts the draws since seeding\<close>
  "example_generators =
     \<lparr>seeded = (\<lambda>d s. nat \<bar>s\<bar>),
      uniform = (\<lambda>d g. (1 / 2, g + 1)),
      normal = (\<lambda>d g. case d of CPU \<Rightarrow> (3 + real g, g + 1)
                              | CUDA _ \<Rightarrow> (- 3 - real g, g + 1))\<rparr>"

definition example_quantizer :: "bool \<Rightarrow> quantizer" where
  \<comment> \<open>an asymmetric quantizer after a ReLU, with mapped bitwidth 5.25 and scale 21\<close>
  "example_quantizer rg =
     \<lparr>symm = False, offset = Some (Scalar 0), raw_bitwidth = 0,
      bitwidth_requires_grad = rg, raw_alpha = 21, training = True\<rparr>"

definition mae :: "real list \<Rightarrow> real \<Rightarrow> nat \<Rightarrow> real" where
  \<comment> \<open>the mean absolute error that \<^verbatim>\<open>group_err\<close> returns for \<open>g\<close> groups, when it returns\<close>
  "mae arr unit g = (case group_err arr unit g of Inl e \<Rightarrow> 0 | Inr (err, _) \<Rightarrow> err)"

definition module_weight :: "module \<Rightarrow> real list option" where
  \<comment> \<open>the weight of a quantized operator\<close>
  "module_weight m =
     (case m of Q_Conv2d c \<Rightarrow> Some (weight c) | Q_Linear l \<Rightarrow> Some (lin_weight l)
      | Conv2d c \<Rightarrow> None | Other \<Rightarrow> None)"

definition w_quant_of :: "module \<Rightarrow> quantizer option" where
  \<comment> \<open>the weight quantizer of a quantized operator\<close>
  "w_quant_of m =
     (case m of Q_Conv2d c \<Rightarrow> Some (w_quant c) | Q_Linear l \<Rightarrow> Some (lin_w_quant l)
      | Conv2d c \<Rightarrow> None | Other \<Rightarrow> None)"

definition a_quant_of :: "module \<Rightarrow> quantizer option" where
  \<comment> \<open>the activation quantizer of a quantized operator\<close>
  "a_quant_of m =
     (case m of Q_Conv2d c \<Rightarrow> Some (a_quant c) | Q_Linear l \<Rightarrow> Some (lin_a_quant l)
      | Conv2d c \<Rightarrow> None | Other \<Rightarrow> None)"

definition example_linear :: q_linear where
  \<comment> \<open>a linear operator as \<^verbatim>\<open>Q_Linear(2, 1)\<close> constructs it, with the weight \<open>[-5, 2]\<close>\<close>
  "example_linear =
     \<lparr>in_features = 2, out_features = 1, lin_weight = [- 5, 2],
      lin_a_quant = \<lparr>symm = True, offset = None, raw_bitwidth = 2.5,
                     bitwidth_requires_grad = True, raw_alpha = 1, training = True\<rparr>,
      lin_w_quant = \<lparr>symm = True, offset = None, raw_bitwidth = 2.5,
                     bitwidth_requires_grad = True, raw_alpha = 1, training = True\<rparr>\<rparr>"

definition example_linear_first :: q_linear where
  \<comment> \<open>\<open>example_linear\<close> after \<^verbatim>\<open>initialize_Q(model, 'first', x)\<close>\<close>
  "example_linear_first =
     example_linear
       \<lparr>lin_a_quant := (lin_a_quant example_linear)\<lparr>training := False\<rparr>,
        lin_w_quant := (lin_w_quant example_linear)\<lparr>raw_alpha := 2, training := False\<rparr>\<rparr>"


section \<open>The group search as the specification words it\<close>

text \<open>
  The definitions of this section follow the words of the specification, not the code:
  \<open>g\<close> equal-size groups of channels with the remainder folded into the last group, for
  each group the multiple \<open>unit * i\<close>, \<open>i\<close> in \<open>{0, 1, 2, 3, 4}\<close>, nearest to the group's
  minimum (the first of them in a tie), and the mean over the channels of the absolute
  difference between a channel's minimum and the multiple of its group.
\<close>

definition segment :: "real list \<Rightarrow> nat \<Rightarrow> nat \<Rightarrow> real list" where
  \<comment> \<open>the channels of group \<open>k\<close> of \<open>g\<close>\<close>
  "segment arr g k =
     (let n = length arr div g
      in if k = g - 1 then drop (k * n) arr else take n (drop (k * n) arr))"

definition group_of :: "nat \<Rightarrow> nat \<Rightarrow> nat \<Rightarrow> nat" where
  \<comment> \<open>the group of channel \<open>j\<close> of \<open>n\<close> channels in \<open>g\<close> groups\<close>
  "group_of n g j = min (j div (n div g)) (g - 1)"

definition nearest_multiple :: "real \<Rightarrow> real \<Rightarrow> real" where
  "nearest_multiple t u =
     (let errs = map (\<lambda>i. \<bar>t - u * real i\<bar>) [0..<5]
      in u * real (hd (filter (\<lambda>i. \<bar>t - u * real i\<bar> = Min (set errs)) [0..<5])))"

definition group_targets :: "real list \<Rightarrow> real \<Rightarrow> nat \<Rightarrow> real list" where
  \<comment> \<open>for each channel the multiple of its group\<close>
  "group_targets arr u g =
     map (\<lambda>j. nearest_multiple (Min (set (segment arr g (group_of (length arr) g j)))) u)
       [0..<length arr]"

definition mean_abs_error :: "real list \<Rightarrow> real \<Rightarrow> nat \<Rightarrow> real" where
  "mean_abs_error arr u g = mean (map2 (\<lambda>v t. \<bar>v - t\<bar>) arr (group_targets arr u g))"

definition within_bound :: "real list \<Rightarrow> real \<Rightarrow> nat \<Rightarrow> bool" where
  \<comment> \<open>every group of the \<open>g\<close> has a multiple within 100 of its minimum\<close>
  "within_bound arr u g =
     list_all (\<lambda>k. list_ex (\<lambda>i. \<bar>Min (set (segment arr g k)) - u * real i\<bar> < 100) [0..<5])
       [0..<g]"

definition written ::
  "real list \<Rightarrow> real \<Rightarrow> nat \<Rightarrow> nat \<Rightarrow> real list \<times> real list \<Rightarrow> bool" where
  \<comment> \<open>the invariant of the loop of \<^verbatim>\<open>group_err\<close>: what \<^verbatim>\<open>(arr_err, arr_off)\<close> hold
      once the first \<open>k\<close> groups are written\<close>
  "written arr u g k s =
     (length (fst s) = length arr \<and> length (snd s) = length arr \<and>
      (\<forall>j < (if k = g then length arr else k * (length arr div g)).
         fst s ! j = \<bar>arr ! j - group_targets arr u g ! j\<bar> \<and>
         snd s ! j = group_targets arr u g ! j))"


definition example_hswish_conv :: q_conv2d where
  \<comment> \<open>a convolution as \<^verbatim>\<open>Q_Conv2d(4, 8, 1, act_func='hswish')\<close> constructs it, with a
      weight whose largest element is \<open>1 / 2\<close> and whose largest magnitude is \<open>3 / 2\<close>\<close>
  "example_hswish_conv =
     \<lparr>in_channels = 4, out_channels = 8, kernel_size = 1,
      weight = [1 / 2, - 3 / 2, 1 / 4, 0],
      in_height = None, in_width = None, out_height = None, out_width = None,
      a_quant = \<lparr>symm = False, offset = Some (Scalar 0.3125), raw_bitwidth = 2.5,
                 bitwidth_requires_grad = True, raw_alpha = 6, training = True\<rparr>,
      w_quant = \<lparr>symm = False, offset = Some (Scalar 0.3125), raw_bitwidth = 2.5,
                 bitwidth_requires_grad = True, raw_alpha = 6, training = True\<rparr>\<rparr>"

definition example_call :: call where
  \<comment> \<open>one call of the module at index 0 on a batch of shape \<open>[1, 4, 14, 14]\<close>\<close>
  "example_call =
     \<lparr>target = 0, in_shape = [1, 4, 14, 14], out_shape = [1, 8, 14, 14],
      c_min = [- 0.3125, - 0.3125, - 0.625, - 0.625]\<rparr>"

definition example_hswish_conv_first :: q_conv2d where
  \<comment> \<open>\<open>example_hswish_conv\<close> after \<^verbatim>\<open>initialize_Q(model, 'first', x)\<close> with the call
      above: in evaluation mode, with the recorded extents, the offsets of two groups of
      channels and the scale parameter of the weight quantizer seeded\<close>
  "example_hswish_conv_first =
     \<lparr>in_channels = 4, out_channels = 8, kernel_size = 1,
      weight = [1 / 2, - 3 / 2, 1 / 4, 0],
      in_height = Some 14, in_width = Some 14, out_height = Some 14, out_width = Some 14,
      a_quant = \<lparr>symm = False, offset = Some (PerChannel [0.3125, 0.3125, 0.625, 0.625]),
                 raw_bitwidth = 2.5, bitwidth_requires_grad = True, raw_alpha = 6,
                 training = False\<rparr>,
      w_quant = \<lparr>symm = False, offset = Some (Scalar 0.3125), raw_bitwidth = 2.5,
                 bitwidth_requires_grad = True, raw_alpha = 1 / 2, training = False\<rparr>\<rparr>"


definition example_relu_conv :: q_conv2d where
  \<comment> \<open>a convolution as \<^verbatim>\<open>Q_Conv2d(6, 8, 1, act_func='relu')\<close> constructs it\<close>
  "example_relu_conv =
     \<lparr>in_channels = 6, out_channels = 8, kernel_size = 1, weight = replicate 48 0,
      in_height = None, in_width = None, out_height = None, out_width = None,
      a_quant = \<lparr>symm = False, offset = Some (Scalar 0), raw_bitwidth = 2.5,
                 bitwidth_requires_grad = True, raw_alpha = 6, training = False\<rparr>,
      w_quant = \<lparr>symm = False, offset = Some (Scalar 0), raw_bitwidth = 2.5,
                 bitwidth_requires_grad = True, raw_alpha = 6, training = False\<rparr>\<rparr>"

section \<open>What initialization leaves in a module\<close>

text \<open>
  The three predicates of this section word what the two modes of \<^verbatim>\<open>initialize_Q\<close> are
  to leave behind; they are not taken from the code.
\<close>

definition in_eval_mode :: "module \<Rightarrow> bool" where
  \<comment> \<open>the quantizers of the module are in evaluation mode\<close>
  "in_eval_mode m =
     (case m of
        Q_Conv2d c \<Rightarrow> \<not> training (a_quant c) \<and> \<not> training (w_quant c)
      | Q_Linear l \<Rightarrow> \<not> training (lin_a_quant l) \<and> \<not> training (lin_w_quant l)
      | Conv2d c \<Rightarrow> True
      | Other \<Rightarrow> True)"

definition seeded_from :: "module \<Rightarrow> module \<Rightarrow> bool" where
  \<comment> \<open>\<open>m'\<close> is \<open>m\<close> with the scale parameter of its weight quantizer set to the largest
      element of its weight, and nothing else changed\<close>
  "seeded_from m m' =
     (case m of
        Q_Conv2d c \<Rightarrow>
          weight c \<noteq> [] \<and>
          m' = Q_Conv2d (c\<lparr>w_quant := (w_quant c)\<lparr>raw_alpha := Max (set (weight c))\<rparr>\<rparr>)
      | Q_Linear l \<Rightarrow>
          lin_weight l \<noteq> [] \<and>
          m' = Q_Linear (l\<lparr>lin_w_quant :=
                  (lin_w_quant l)\<lparr>raw_alpha := Max (set (lin_weight l))\<rparr>\<rparr>)
      | Conv2d c \<Rightarrow> m' = m
      | Other \<Rightarrow> m' = m)"

definition frozen_from :: "module \<Rightarrow> module \<Rightarrow> bool" where
  \<comment> \<open>\<open>m'\<close> is \<open>m\<close> with \<^verbatim>\<open>requires_grad\<close> of both bitwidth logits false, and nothing
      else changed\<close>
  "frozen_from m m' =
     (case m of
        Q_Conv2d c \<Rightarrow>
          m' = Q_Conv2d (c\<lparr>w_quant := (w_quant c)\<lparr>bitwidth_requires_grad := False\<rparr>,
                          a_quant := (a_quant c)\<lparr>bitwidth_requires_grad := False\<rparr>\<rparr>)
      | Q_Linear l \<Rightarrow>
          m' = Q_Linear (l\<lparr>lin_w_quant := (lin_w_quant l)\<lparr>bitwidth_requires_grad := False\<rparr>,
                          lin_a_quant := (lin_a_quant l)\<lparr>bitwidth_requires_grad := False\<rparr>\<rparr>)
      | Conv2d c \<Rightarrow> m' = m
      | Other \<Rightarrow> m' = m)"

section \<open>Facts about the numeric primitives\<close>

lemma sigmoid_bounds: "0 < sigmoid x" "sigmoid x < 1"
  unfolding sigmoid_def by (simp_all add: add_pos_pos)

lemma logit2bit_bounds: "2 < logit2bit L" "logit2bit L < 8.5"
  using sigmoid_bounds[of L] unfolding logit2bit_def Let_def by simp_all

lemma torch_round_range:
  assumes "2 \<le> x" "x \<le> 8.5"
  shows "torch_round x \<in> {2, 3, 4, 5, 6, 7, 8}"
proof -
  let ?f = "\<lfloor>x\<rfloor>"
  have f2: "2 \<le> ?f" using assms(1) by (simp add: le_floor_iff)
  have f8: "?f \<le> 8" using assms(2) by (simp add: floor_le_iff)
  consider "?f = 2" | "?f = 3" | "?f = 4" | "?f = 5" | "?f = 6" | "?f = 7" | "?f = 8"
    using f2 f8 by linarith
  then show ?thesis
  proof cases
    case 7
    then have "x - of_int ?f \<le> 1 / 2" using assms(2) by simp
    with 7 show ?thesis unfolding torch_round_def Let_def by auto
  qed (auto simp: torch_round_def Let_def)
qed

text \<open>
  The endpoints are covered too: should a saturated sigmoid return exactly 0 or 1, the
  mapped value is 2 or 8.5, and the tie at 8.5 goes to the even neighbour 8.
\<close>

lemma saturated_sigmoid_range:
  assumes "0 \<le> s" "s \<le> 1"
  shows "2 \<le> 2.0 + s * 6.5" "2.0 + s * 6.5 \<le> 8.5"
    "torch_round (2.0 + s * 6.5) \<in> {2, 3, 4, 5, 6, 7, 8}"
proof -
  show a: "2 \<le> 2.0 + s * 6.5" using assms by simp
  show b: "2.0 + s * 6.5 \<le> 8.5" using assms by simp
  show "torch_round (2.0 + s * 6.5) \<in> {2, 3, 4, 5, 6, 7, 8}"
    using a b by (rule torch_round_range)
qed

lemma hard_quant_round: "hard_quant x = torch_round x"
  unfolding hard_quant_def Let_def by simp

section \<open>The bitwidth range\<close>

text \<open>
  C4. Whatever the logit, the mapped bitwidth \<open>2.0 + sigmoid logit * 6.5\<close> lies in
  \<open>[2, 8.5]\<close>, and the bitwidth of a quantizer whose logit no longer requires a gradient
  (the rounded, deployable value) is one of 2, 3, 4, 5, 6, 7, 8.
\<close>

theorem bitwidth_range:
  "2 \<le> logit2bit L \<and> logit2bit L \<le> 8.5 \<and>
   (\<not> bitwidth_requires_grad q \<longrightarrow> bitwidth q \<in> {2, 3, 4, 5, 6, 7, 8})"
  using logit2bit_bounds[of L] logit2bit_bounds[of "raw_bitwidth q"]
    torch_round_range[of "logit2bit (raw_bitwidth q)"]
  by (simp add: bitwidth_def)

theorem bitwidth_range_witness:
  "2 \<le> logit2bit 1000 \<and> logit2bit 1000 \<le> 8.5 \<and>
   bitwidth \<lparr>symm = True, offset = None, raw_bitwidth = - 1000,
             bitwidth_requires_grad = False, raw_alpha = 1, training = False\<rparr>
     \<in> {2, 3, 4, 5, 6, 7, 8}"
  using bitwidth_range[of 1000 "\<lparr>symm = True, offset = None, raw_bitwidth = - 1000,
             bitwidth_requires_grad = False, raw_alpha = 1, training = False\<rparr>"]
  by simp

section \<open>Offsets by activation tag\<close>

lemma lower_relu: "sublist ''relu'' t \<Longrightarrow> sublist ''relu'' (lower t)"
proof -
  assume "sublist ''relu'' t"
  then have "sublist (map lower_char ''relu'') (map lower_char t)"
    by (rule map_mono_sublist)
  then show ?thesis
    by (simp add: lower_def lower_char_def latin1_upper_def latin1_lower_def)
qed

lemma init_alpha_plain:
  assumes "last t \<notin> {CHR 0xB2, CHR 0xB3, CHR 0xB9}"
    and "sublist ''relu'' t \<or> sublist ''swish'' t"
  shows "init_alpha False t = Inr 6"
proof (cases "isdigit (last t)")
  case True
  then have "last t \<in> set ''0123456789''" using assms(1) unfolding isdigit_def by blast
  then obtain v where "float_of_char (last t) = Inr v"
    unfolding float_of_char_def by auto
  then show ?thesis using True assms(2) by (simp add: init_alpha_def)
next
  case False
  then show ?thesis using assms(2) by (simp add: init_alpha_def)
qed

lemma init_alpha_superscript:
  assumes "last t \<in> {CHR 0xB2, CHR 0xB3, CHR 0xB9}"
    and "sublist ''relu'' t \<or> sublist ''swish'' t"
  shows "init_alpha False t = Inl ValueError"
proof -
  have d: "isdigit (last t)" using assms(1) unfolding isdigit_def by blast
  have "last t \<notin> set ''0123456789''" using assms(1) by auto
  then have "float_of_char (last t) = Inl ValueError"
    unfolding float_of_char_def by (auto split: option.splits)
  then show ?thesis using d assms(2) by (simp add: init_alpha_def)
qed

text \<open>
  What the constructor does for every tag. When the last character of the tag is not one
  of the superscript digits, the offset follows the tag read in lower case: \<open>relu\<close> gives
  0, otherwise \<open>swish\<close> gives 0.3125 with an \<open>h\<close> among the first two characters and
  0.2784645427610738 without. A tag with neither \<open>relu\<close> nor \<open>swish\<close> raises
  \<open>NotImplementedError\<close>. A recognized tag that ends in a superscript digit raises
  \<open>ValueError\<close>.
\<close>

lemma offset_by_tag:
  "(last (lower tag) \<notin> {CHR 0xB2, CHR 0xB3, CHR 0xB9} \<and> sublist ''relu'' (lower tag) \<longrightarrow>
      offset_of (Quantizer_init False (Some tag)) = Inr (Some (Scalar 0))) \<and>
   (last (lower tag) \<notin> {CHR 0xB2, CHR 0xB3, CHR 0xB9} \<and>
    \<not> sublist ''relu'' (lower tag) \<and> sublist ''swish'' (lower tag) \<and>
    CHR ''h'' \<in> set (take 2 (lower tag)) \<longrightarrow>
      offset_of (Quantizer_init False (Some tag)) = Inr (Some (Scalar 0.3125))) \<and>
   (last (lower tag) \<notin> {CHR 0xB2, CHR 0xB3, CHR 0xB9} \<and>
    \<not> sublist ''relu'' (lower tag) \<and> sublist ''swish'' (lower tag) \<and>
    CHR ''h'' \<notin> set (take 2 (lower tag)) \<longrightarrow>
      offset_of (Quantizer_init False (Some tag)) = Inr (Some (Scalar 0.2784645427610738))) \<and>
   (\<not> sublist ''relu'' (lower tag) \<and> \<not> sublist ''swish'' (lower tag) \<longrightarrow>
      Quantizer_init False (Some tag) = Inl NotImplementedError) \<and>
   (last (lower tag) \<in> {CHR 0xB2, CHR 0xB3, CHR 0xB9} \<and>
    (sublist ''relu'' (lower tag) \<or> sublist ''swish'' (lower tag)) \<longrightarrow>
      Quantizer_init False (Some tag) = Inl ValueError)"
  using init_alpha_plain[of "lower tag"] init_alpha_superscript[of "lower tag"]
  by (auto simp: offset_of_def Quantizer_init_def init_offset_def Let_def)

lemma offset_of_usual_tags:
  "offset_of (Quantizer_init False (Some ''relu'')) = Inr (Some (Scalar 0))"
  "offset_of (Quantizer_init False (Some ''ReLU6'')) = Inr (Some (Scalar 0))"
  "offset_of (Quantizer_init False (Some ''hswish'')) = Inr (Some (Scalar 0.3125))"
  "offset_of (Quantizer_init False (Some ''swish'')) = Inr (Some (Scalar 0.2784645427610738))"
  "Quantizer_init False (Some ''gelu'') = Inl NotImplementedError"
  by (simp_all add: offset_of_def Quantizer_init_def init_offset_def init_alpha_def Let_def
      lower_def lower_char_def latin1_upper_def latin1_lower_def isdigit_def float_of_char_def sublist_Cons_right)

text \<open>
  C5. The tags \<open>relu\<close>, \<open>hswish\<close> and \<open>swish\<close> get the offsets 0, 0.3125 and
  0.2784645427610738 and an unrecognized tag raises \<open>NotImplementedError\<close>, but not any tag
  containing \<open>relu\<close> yields the offset 0: for the tag \<open>relu\<close> followed by the superscript
  two (code point \<open>0xB2\<close>) the constructor has already chosen the offset 0 when it reads the
  last character with \<^verbatim>\<open>float\<close>, because \<^verbatim>\<open>isdigit\<close> holds of it, and raises
  \<open>ValueError\<close>. The value read there is dead: it is overwritten by \<open>6.0\<close> at once.
\<close>

theorem superscript_digit_tag_raises:
  "Quantizer_init False (Some (''relu'' @ [CHR 0xB2])) = Inl ValueError \<and>
   sublist ''relu'' (''relu'' @ [CHR 0xB2]) \<and>
   init_offset (lower (''relu'' @ [CHR 0xB2])) = Inr 0"
  by (simp add: Quantizer_init_def init_offset_def init_alpha_def Let_def
      lower_def lower_char_def latin1_upper_def latin1_lower_def isdigit_def float_of_char_def sublist_Cons_right)

section \<open>Symmetry of the quantizers of a wrapped convolution\<close>

lemma Quantizer_init_symm: "Quantizer_init sy act = Inr q \<Longrightarrow> symm q = sy"
  by (auto simp: Quantizer_init_def Let_def split: if_splits option.splits sum.splits)

lemma Quantizer_init_None:
  "Quantizer_init True None =
     Inr \<lparr>symm = True, offset = None, raw_bitwidth = 2.5,
          bitwidth_requires_grad = True, raw_alpha = 1, training = True\<rparr>"
  by (simp add: Quantizer_init_def)

lemma Quantizer_init_relu1:
  "Quantizer_init False (Some ''relu1'') =
     Inr \<lparr>symm = False, offset = Some (Scalar 0), raw_bitwidth = 2.5,
          bitwidth_requires_grad = True, raw_alpha = 6, training = True\<rparr>"
  by (simp add: Quantizer_init_def lower_def lower_char_def latin1_upper_def latin1_lower_def
      init_offset_def init_alpha_def isdigit_def float_of_char_def Let_def sublist_Cons_right)

lemma Quantizer_init_swish:
  "Quantizer_init False (Some ''swish'') =
     Inr \<lparr>symm = False, offset = Some (Scalar 0.2784645427610738), raw_bitwidth = 2.5,
          bitwidth_requires_grad = True, raw_alpha = 6, training = True\<rparr>"
  by (simp add: Quantizer_init_def lower_def lower_char_def latin1_upper_def latin1_lower_def
      init_offset_def init_alpha_def isdigit_def float_of_char_def Let_def sublist_Cons_right)

lemma Q_Conv2d_init_symm:
  "Q_Conv2d_init c1 c2 k w act = Inr m \<Longrightarrow>
     symm (a_quant m) = (act = None) \<and> symm (w_quant m) = (act = None)"
  by (auto simp: Q_Conv2d_init_def Let_def split: if_splits sum.splits
      dest: Quantizer_init_symm)

lemma Q_Conv_init_a_quant:
  "\<exists>conv. Q_Conv_init c1 c2 k w = Inr conv \<and>
     a_quant conv =
       \<lparr>symm = False,
        offset = Some (Scalar (if c1 = 3 then 0 else 0.2784645427610738)),
        raw_bitwidth = 2.5, bitwidth_requires_grad = (c1 \<noteq> 3 \<and> c1 \<noteq> 32),
        raw_alpha = 6, training = True\<rparr>"
  by (simp add: Q_Conv_init_def Q_Conv2d_init_def Quantizer_init_relu1 Quantizer_init_swish)

lemma Q_Detect_init_symm:
  "Q_Detect_init c_out ch = Inr ms \<Longrightarrow> m \<in> set ms \<Longrightarrow>
     symm (a_quant m) \<and> offset (a_quant m) = None"
proof (induction ch arbitrary: ms)
  case Nil
  then show ?case by simp
next
  case (Cons p ch)
  obtain x w where p: "p = (x, w)" by (cases p)
  from Cons.prems(1) obtain m0 ms0 where
    m0: "Q_Conv2d_init x c_out 1 w None = Inr m0" and
    ms0: "Q_Detect_init c_out ch = Inr ms0" and ms: "ms = m0 # ms0"
    by (auto simp: p split: sum.splits)
  have "symm (a_quant m0) \<and> offset (a_quant m0) = None"
    using m0 by (auto simp: Q_Conv2d_init_def Quantizer_init_None)
  then show ?case using Cons.IH[OF ms0] Cons.prems(2) ms by auto
qed

text \<open>
  C6, as the specification states it, fails on the code: the first operator of the network
  (\<open>c1 = 3\<close>, the image) gets from \<open>Q_Conv\<close> the tag \<open>relu1\<close>, so its activation quantizer is
  asymmetric with offset 0; and the output convolutions of \<open>Q_Detect\<close>, which are not the
  first operator, get no tag and are symmetric.
\<close>

theorem first_op_symmetric_counterexample:
  "(case Q_Conv_init 3 32 6 (replicate 3456 0) of
      Inl e \<Rightarrow> False
    | Inr conv \<Rightarrow> \<not> symm (a_quant conv) \<and> offset (a_quant conv) = Some (Scalar 0)) \<and>
   (case Q_Detect_init 255 [(128, replicate 32640 0)] of
      Inl e \<Rightarrow> False
    | Inr ms \<Rightarrow> map (\<lambda>m. symm (a_quant m)) ms = [True])"
  by (simp add: Q_Conv_init_def Q_Conv2d_init_def Quantizer_init_relu1 Quantizer_init_None)

text \<open>
  C6, amended. \<open>Q_Conv2d\<close> constructs its activation quantizer (and its weight quantizer)
  symmetric exactly when no activation tag is supplied. \<open>Q_Conv\<close> always supplies one,
  \<open>relu1\<close> when \<open>c1 = 3\<close> and \<open>swish\<close> otherwise, so the activation quantizer of its
  convolution is asymmetric with the fixed offset of that tag (0 or 0.2784645427610738);
  the output convolutions of \<open>Q_Detect\<close> supply none and are symmetric, with no offset.
\<close>

theorem activation_quantizer_symmetry:
  "(Q_Conv2d_init c1 c2 k w act = Inr m \<longrightarrow>
      symm (a_quant m) = (act = None) \<and> symm (w_quant m) = (act = None)) \<and>
   (\<exists>conv. Q_Conv_init c1 c2 k w = Inr conv \<and> \<not> symm (a_quant conv) \<and>
      offset (a_quant conv) = Some (Scalar (if c1 = 3 then 0 else 0.2784645427610738))) \<and>
   (Q_Detect_init c_out ch = Inr ms \<longrightarrow>
      (\<forall>d \<in> set ms. symm (a_quant d) \<and> offset (a_quant d) = None))"
proof -
  have p1: "Q_Conv2d_init c1 c2 k w act = Inr m \<longrightarrow>
      symm (a_quant m) = (act = None) \<and> symm (w_quant m) = (act = None)"
    by (simp add: Q_Conv2d_init_symm)
  from Q_Conv_init_a_quant[of c1 c2 k w] obtain conv where
    c: "Q_Conv_init c1 c2 k w = Inr conv" and
    a: "a_quant conv =
       \<lparr>symm = False,
        offset = Some (Scalar (if c1 = 3 then 0 else 0.2784645427610738)),
        raw_bitwidth = 2.5, bitwidth_requires_grad = (c1 \<noteq> 3 \<and> c1 \<noteq> 32),
        raw_alpha = 6, training = True\<rparr>"
    by blast
  have p2: "\<exists>conv. Q_Conv_init c1 c2 k w = Inr conv \<and> \<not> symm (a_quant conv) \<and>
      offset (a_quant conv) = Some (Scalar (if c1 = 3 then 0 else 0.2784645427610738))"
    using c a by (intro exI[of _ conv]) simp
  have p3: "Q_Detect_init c_out ch = Inr ms \<longrightarrow>
      (\<forall>d \<in> set ms. symm (a_quant d) \<and> offset (a_quant d) = None)"
    using Q_Detect_init_symm by blast
  show ?thesis using p1 p2 p3 by (intro conjI)
qed

theorem activation_quantizer_symmetry_witness:
  "symm (a_quant
     \<lparr>in_channels = 128, out_channels = 255, kernel_size = 1, weight = [],
      in_height = None, in_width = None, out_height = None, out_width = None,
      a_quant = \<lparr>symm = True, offset = None, raw_bitwidth = 2.5,
                 bitwidth_requires_grad = True, raw_alpha = 1, training = True\<rparr>,
      w_quant = \<lparr>symm = True, offset = None, raw_bitwidth = 2.5,
                 bitwidth_requires_grad = True, raw_alpha = 1, training = True\<rparr>\<rparr>)
     = ((None :: string option) = None) \<and>
   (\<exists>conv. Q_Conv_init 64 128 3 [] = Inr conv \<and> \<not> symm (a_quant conv) \<and>
      offset (a_quant conv) = Some (Scalar 0.2784645427610738))"
  using activation_quantizer_symmetry[of 128 255 1 "[]" None
      "\<lparr>in_channels = 128, out_channels = 255, kernel_size = 1, weight = [],
      in_height = None, in_width = None, out_height = None, out_width = None,
      a_quant = \<lparr>symm = True, offset = None, raw_bitwidth = 2.5,
                 bitwidth_requires_grad = True, raw_alpha = 1, training = True\<rparr>,
      w_quant = \<lparr>symm = True, offset = None, raw_bitwidth = 2.5,
                 bitwidth_requires_grad = True, raw_alpha = 1, training = True\<rparr>\<rparr>"]
    activation_quantizer_symmetry[of 64 128 3 "[]"]
  by (simp add: Q_Conv2d_init_def Quantizer_init_None)

section \<open>The cost of one operator\<close>






section \<open>The stochastic rounding estimator\<close>

lemma forward_multiplier_eq:
  "forward_multiplier G st x =
     (let d = (if is_cuda x then CUDA 0 else CPU)
      in torch_round (fst (normal G d (seeded G d (int_of_real (fst (uniform G d (st d)))))) / 2))"
  unfolding forward_multiplier_def Let_def rand_def randn_def manual_seed_def
  by (simp split: prod.splits)

text \<open>
  C10. One forward pass of the estimator takes one normal sample, from the generator it has
  just seeded, and adds the one value \<open>round (sample / 2) * step\<close> to every element of \<open>x\<close>:
  the result is \<open>x\<close> with the same number added everywhere, and the random state left
  behind is the seeded state after that single normal draw.
\<close>

theorem shared_dither:
  "fst (noise_quant_forward G st x step) =
     x\<lparr>rows := map (map (\<lambda>v. fadd v (forward_multiplier G st x * step))) (rows x)\<rparr> \<and>
   forward_multiplier G st x =
     (let d = (if is_cuda x then CUDA 0 else CPU);
          rseed = fst (uniform G d (st d))
      in torch_round (fst (normal G d (seeded G d (int_of_real rseed))) / 2)) \<and>
   snd (snd (noise_quant_forward G st x step)) =
     (let d = (if is_cuda x then CUDA 0 else CPU);
          rseed = fst (uniform G d (st d))
      in (manual_seed G rseed)(d := snd (normal G d (seeded G d (int_of_real rseed)))))"
  unfolding noise_quant_forward_def noise_quant_forward_on_def forward_multiplier_def Let_def
    rand_def randn_def manual_seed_def
  by (simp split: prod.splits)

lemma backward_grad_x: "fst (fst (noise_quant_backward G rseed g)) = g"
  unfolding noise_quant_backward_def Let_def by (simp split: prod.splits)

lemma backward_grad_step:
  "snd (fst (noise_quant_backward G rseed g)) =
     torch_round (fst (normal G CPU (seeded G CPU (int_of_real rseed))) / 2)"
  unfolding noise_quant_backward_def Let_def randn_def manual_seed_def
  by (simp split: prod.splits)

text \<open>
  For an input on the CPU the backward pass reproduces the forward pass: same seed, same
  generator, same multiplier, and the incoming gradient is handed on unchanged.
\<close>

lemma backward_matches_forward_on_cpu:
  assumes "\<not> is_cuda x" "noise_quant_forward G st x step = (t1, rseed, st')"
  shows "noise_quant_backward G rseed g = ((g, forward_multiplier G st x), st')"
  using assms
  unfolding noise_quant_forward_def noise_quant_forward_on_def forward_multiplier_def Let_def
    rand_def randn_def manual_seed_def noise_quant_backward_def
  by (auto split: prod.splits)

text \<open>
  C2. The backward pass returns the incoming gradient for \<open>x\<close> and the redrawn
  \<open>round (sample / 2)\<close> for \<open>step\<close>, and it seeds with the saved seed; but it draws with
  \<^verbatim>\<open>torch.randn(1)\<close>, on the default device, while the forward pass of a CUDA input draws
  on \<^verbatim>\<open>cuda:0\<close>. With generators whose streams differ between the devices, the forward
  pass of the CUDA input below adds \<open>-2 * step\<close> and the backward pass returns the
  multiplier \<open>2\<close>.
\<close>

theorem backward_redraw_on_cuda:
  "(let x = \<lparr>dev = CUDA 0, rows = [[Fin 0, Fin 1]]\<rparr>;
        st = (\<lambda>d. 0);
        (t1, rseed, st') = noise_quant_forward example_generators st x 1;
        ((grad_x, grad_step), st'') = noise_quant_backward example_generators rseed (1::real)
    in rows t1 = [[Fin (- 2), Fin (- 1)]] \<and> forward_multiplier example_generators st x = - 2 \<and>
       grad_x = 1 \<and> grad_step = 2)"
  unfolding noise_quant_forward_def noise_quant_forward_on_def forward_multiplier_def Let_def
    rand_def randn_def manual_seed_def noise_quant_backward_def example_generators_def
    is_cuda_def int_of_real_def torch_round_def
  by simp

section \<open>The branch of the quantizer\<close>

text \<open>Two runs of the quantizer on a concrete tensor, one in each branch.\<close>

lemma sigmoid_0: "sigmoid 0 = 1 / 2"
  by (simp add: sigmoid_def)

lemma example_quantizer_levels:
  "hard_quant (bitwidth (example_quantizer rg)) = 5" "alpha (example_quantizer rg) = 21"
  by (simp_all add: example_quantizer_def bitwidth_def logit2bit_def sigmoid_0 hard_quant_round
      torch_round_def Let_def alpha_def softplus_def)

lemma example_quant_deterministic:
  "quant G (example_quantizer rg) \<lparr>dev = CPU, rows = [[Fin 10.4, Fin (- 3)], [Fin 100]]\<rparr> False st =
     Inr (\<lparr>dev = CPU, rows = [[Fin (315 / 31), Fin 0], [Fin 21]]\<rparr>, None, st)"
  unfolding quant_def Let_def example_quantizer_levels
  by (simp add: example_quantizer_def hard_quant_round clamp_def torch_round_def Let_def)

lemma example_quant_stochastic:
  "\<exists>st'. quant example_generators (example_quantizer True)
       \<lparr>dev = CPU, rows = [[Fin 10.4, Fin (- 3)], [Fin 100]]\<rparr> True (\<lambda>d. 0) =
     Inr (\<lparr>dev = CPU, rows = [[Fin (1822 / 155), Fin 0], [Fin 21]]\<rparr>, Some (1 / 2), st')"
  unfolding quant_def Let_def example_quantizer_levels
  by (simp add: example_quantizer_def clamp_def torch_round_def Let_def
      noise_quant_forward_def noise_quant_forward_on_def rand_def randn_def manual_seed_def
      example_generators_def is_cuda_def int_of_real_def)


lemma quant_cases:
  "quant G q x tr st = Inr (y, ctx, st') \<Longrightarrow>
     ((ctx \<noteq> None) = (tr \<and> bitwidth_requires_grad q)) \<and>
     (\<not> (tr \<and> bitwidth_requires_grad q) \<longrightarrow> st' = st)"
  unfolding quant_def Let_def
  by (auto split: if_splits option.splits sum.splits prod.splits)

lemma quant_frozen:
  "\<not> bitwidth_requires_grad q \<Longrightarrow> quant G q x True st = quant G q x False st"
  unfolding quant_def Let_def
  by (simp split: prod.splits option.splits sum.splits)

lemma forward_training:
  "forward G (q\<lparr>training := True\<rparr>) x st = quant G q x True st"
  unfolding forward_def quant_def bitwidth_def alpha_def Let_def
  by (simp cong: option.case_cong sum.case_cong prod.case_cong if_cong)

text \<open>
  C1. A run of \<open>quant\<close> that returns has gone through the stochastic branch (the estimator
  ran and saved its seed) exactly when \<open>is_training\<close> is true and the bitwidth logit requires
  a gradient; in every other case it has gone through the deterministic branch, which
  leaves the random state untouched. A quantizer whose bitwidth is frozen computes, in
  training mode, what it computes with \<open>is_training = False\<close>.
\<close>

theorem quant_branch_selection:
  "(quant G q x tr st = Inr (y, ctx, st') \<longrightarrow>
      ((ctx \<noteq> None) = (tr \<and> bitwidth_requires_grad q)) \<and>
      (\<not> (tr \<and> bitwidth_requires_grad q) \<longrightarrow> st' = st)) \<and>
   (\<not> bitwidth_requires_grad q \<longrightarrow>
      quant G q x True st = quant G q x False st \<and>
      forward G (q\<lparr>training := True\<rparr>) x st = quant G q x False st)"
  using quant_cases[of G q x tr st y ctx st'] quant_frozen[of q G x st]
    forward_training[of G q x st]
  by simp

theorem quant_branch_selection_witness:
  "(\<exists>st'. quant example_generators (example_quantizer True)
       \<lparr>dev = CPU, rows = [[Fin 10.4, Fin (- 3)], [Fin 100]]\<rparr> True (\<lambda>d. 0) =
     Inr (\<lparr>dev = CPU, rows = [[Fin (1822 / 155), Fin 0], [Fin 21]]\<rparr>, Some (1 / 2), st')) \<and>
   quant example_generators (example_quantizer False)
       \<lparr>dev = CPU, rows = [[Fin 10.4, Fin (- 3)], [Fin 100]]\<rparr> True (\<lambda>d. 0) =
     Inr (\<lparr>dev = CPU, rows = [[Fin (315 / 31), Fin 0], [Fin 21]]\<rparr>, None, (\<lambda>d. 0)) \<and>
   forward example_generators (example_quantizer False)
       \<lparr>dev = CPU, rows = [[Fin 10.4, Fin (- 3)], [Fin 100]]\<rparr> (\<lambda>d. 0) =
     Inr (\<lparr>dev = CPU, rows = [[Fin (315 / 31), Fin 0], [Fin 21]]\<rparr>, None, (\<lambda>d. 0))"
proof -
  have t: "(example_quantizer False)\<lparr>training := True\<rparr> = example_quantizer False"
    by (simp add: example_quantizer_def)
  have rg: "\<not> bitwidth_requires_grad (example_quantizer False)"
    by (simp add: example_quantizer_def)
  show ?thesis
    using quant_branch_selection[of example_generators "example_quantizer False"
        "\<lparr>dev = CPU, rows = [[Fin 10.4, Fin (- 3)], [Fin 100]]\<rparr>" False "\<lambda>d. 0"
        "\<lparr>dev = CPU, rows = [[Fin (315 / 31), Fin 0], [Fin 21]]\<rparr>" None "\<lambda>d. 0"]
      example_quant_deterministic[of example_generators False "\<lambda>d. 0"]
      example_quant_stochastic rg
    unfolding t by simp
qed


section \<open>Idempotence of the deterministic branch\<close>





lemma softplus_nonneg: "0 \<le> softplus x"
  unfolding softplus_def by (auto simp: ln_ge_zero_iff)















section \<open>The nearest multiple of the offset unit\<close>

lemma optimal_i_loop_spec:
  assumes "sorted_wrt (<) js"
  shows "\<exists>m' mi'. optimal_i_loop t u js (m, mi) = (m', mi') \<and>
     ((m' = m \<and> mi' = mi \<and> (\<forall>j \<in> set js. m \<le> \<bar>t - u * real j\<bar>)) \<or>
      (\<exists>k \<in> set js. mi' = int k \<and> m' = \<bar>t - u * real k\<bar> \<and> m' < m \<and>
         (\<forall>j \<in> set js. m' \<le> \<bar>t - u * real j\<bar>) \<and>
         (\<forall>j \<in> set js. j < k \<longrightarrow> m' < \<bar>t - u * real j\<bar>)))"
  using assms
proof (induction js arbitrary: m mi)
  case Nil
  then show ?case by simp
next
  case (Cons i js)
  let ?e = "\<bar>t - u * real i\<bar>"
  have rest: "sorted_wrt (<) js" using Cons.prems by simp
  have lt: "\<forall>j \<in> set js. i < j" using Cons.prems by simp
  show ?case
  proof (cases "m > ?e")
    case True
    from Cons.IH[OF rest, of ?e "int i"] obtain m' mi' where
      r: "optimal_i_loop t u js (?e, int i) = (m', mi')" and
      d: "(m' = ?e \<and> mi' = int i \<and> (\<forall>j \<in> set js. ?e \<le> \<bar>t - u * real j\<bar>)) \<or>
      (\<exists>k \<in> set js. mi' = int k \<and> m' = \<bar>t - u * real k\<bar> \<and> m' < ?e \<and>
         (\<forall>j \<in> set js. m' \<le> \<bar>t - u * real j\<bar>) \<and>
         (\<forall>j \<in> set js. j < k \<longrightarrow> m' < \<bar>t - u * real j\<bar>))" by blast
    have s: "optimal_i_loop t u (i # js) (m, mi) = (m', mi')"
      using True r by (simp add: Let_def)
    from d show ?thesis
    proof
      assume a: "m' = ?e \<and> mi' = int i \<and> (\<forall>j \<in> set js. ?e \<le> \<bar>t - u * real j\<bar>)"
      have "\<exists>k \<in> set (i # js). mi' = int k \<and> m' = \<bar>t - u * real k\<bar> \<and> m' < m \<and>
         (\<forall>j \<in> set (i # js). m' \<le> \<bar>t - u * real j\<bar>) \<and>
         (\<forall>j \<in> set (i # js). j < k \<longrightarrow> m' < \<bar>t - u * real j\<bar>)"
        by (rule bexI[of _ i]) (use a True lt in auto)
      then show ?thesis using s by blast
    next
      assume "\<exists>k \<in> set js. mi' = int k \<and> m' = \<bar>t - u * real k\<bar> \<and> m' < ?e \<and>
         (\<forall>j \<in> set js. m' \<le> \<bar>t - u * real j\<bar>) \<and>
         (\<forall>j \<in> set js. j < k \<longrightarrow> m' < \<bar>t - u * real j\<bar>)"
      then obtain k where k: "k \<in> set js" "mi' = int k" "m' = \<bar>t - u * real k\<bar>" "m' < ?e"
         "\<forall>j \<in> set js. m' \<le> \<bar>t - u * real j\<bar>"
         "\<forall>j \<in> set js. j < k \<longrightarrow> m' < \<bar>t - u * real j\<bar>" by blast
      have "\<exists>k \<in> set (i # js). mi' = int k \<and> m' = \<bar>t - u * real k\<bar> \<and> m' < m \<and>
         (\<forall>j \<in> set (i # js). m' \<le> \<bar>t - u * real j\<bar>) \<and>
         (\<forall>j \<in> set (i # js). j < k \<longrightarrow> m' < \<bar>t - u * real j\<bar>)"
        by (rule bexI[of _ k]) (use k True in auto)
      then show ?thesis using s by blast
    qed
  next
    case False
    from Cons.IH[OF rest, of m mi] obtain m' mi' where
      r: "optimal_i_loop t u js (m, mi) = (m', mi')" and
      d: "(m' = m \<and> mi' = mi \<and> (\<forall>j \<in> set js. m \<le> \<bar>t - u * real j\<bar>)) \<or>
      (\<exists>k \<in> set js. mi' = int k \<and> m' = \<bar>t - u * real k\<bar> \<and> m' < m \<and>
         (\<forall>j \<in> set js. m' \<le> \<bar>t - u * real j\<bar>) \<and>
         (\<forall>j \<in> set js. j < k \<longrightarrow> m' < \<bar>t - u * real j\<bar>))" by blast
    have s: "optimal_i_loop t u (i # js) (m, mi) = (m', mi')"
      using False r by (simp add: Let_def)
    from d show ?thesis
    proof
      assume "m' = m \<and> mi' = mi \<and> (\<forall>j \<in> set js. m \<le> \<bar>t - u * real j\<bar>)"
      then show ?thesis using s False by auto
    next
      assume "\<exists>k \<in> set js. mi' = int k \<and> m' = \<bar>t - u * real k\<bar> \<and> m' < m \<and>
         (\<forall>j \<in> set js. m' \<le> \<bar>t - u * real j\<bar>) \<and>
         (\<forall>j \<in> set js. j < k \<longrightarrow> m' < \<bar>t - u * real j\<bar>)"
      then obtain k where k: "k \<in> set js" "mi' = int k" "m' = \<bar>t - u * real k\<bar>" "m' < m"
         "\<forall>j \<in> set js. m' \<le> \<bar>t - u * real j\<bar>"
         "\<forall>j \<in> set js. j < k \<longrightarrow> m' < \<bar>t - u * real j\<bar>" by blast
      have "\<exists>k \<in> set (i # js). mi' = int k \<and> m' = \<bar>t - u * real k\<bar> \<and> m' < m \<and>
         (\<forall>j \<in> set (i # js). m' \<le> \<bar>t - u * real j\<bar>) \<and>
         (\<forall>j \<in> set (i # js). j < k \<longrightarrow> m' < \<bar>t - u * real j\<bar>)"
        by (rule bexI[of _ k]) (use k False in auto)
      then show ?thesis using s by blast
    qed
  qed
qed

lemma upt_0_5: "[0..<5] = [0, 1, 2, 3, 4::nat]"
  by (simp add: upt_rec)

text \<open>
  The multiple that \<open>optimal_i\<close> picks is the first of the nearest ones, when one lies
  within the bound 100; otherwise it exits.
\<close>

lemma optimal_i_nearest:
  "(\<forall>j \<in> {0, 1, 2, 3, 4::nat}. 100 \<le> \<bar>t - u * real j\<bar>) \<and> optimal_i t u = Inl SystemExit \<or>
   (\<exists>k \<in> {0, 1, 2, 3, 4::nat}. optimal_i t u = Inr (int k) \<and> \<bar>t - u * real k\<bar> < 100 \<and>
      (\<forall>j \<in> {0, 1, 2, 3, 4::nat}. \<bar>t - u * real k\<bar> \<le> \<bar>t - u * real j\<bar>) \<and>
      (\<forall>j \<in> {0, 1, 2, 3, 4::nat}. j < k \<longrightarrow> \<bar>t - u * real k\<bar> < \<bar>t - u * real j\<bar>))"
proof -
  have b: "sorted_wrt (<) [0, 1, 2, 3, 4::nat]" by simp
  have s: "set [0, 1, 2, 3, 4::nat] = {0, 1, 2, 3, 4}" by simp
  from optimal_i_loop_spec[OF b, of t u 100 "- 1"] obtain m' mi' where
    r: "optimal_i_loop t u [0, 1, 2, 3, 4] (100, - 1) = (m', mi')" and
    d: "(m' = 100 \<and> mi' = - 1 \<and> (\<forall>j \<in> {0, 1, 2, 3, 4::nat}. 100 \<le> \<bar>t - u * real j\<bar>)) \<or>
      (\<exists>k \<in> {0, 1, 2, 3, 4::nat}. mi' = int k \<and> m' = \<bar>t - u * real k\<bar> \<and> m' < 100 \<and>
         (\<forall>j \<in> {0, 1, 2, 3, 4::nat}. m' \<le> \<bar>t - u * real j\<bar>) \<and>
         (\<forall>j \<in> {0, 1, 2, 3, 4::nat}. j < k \<longrightarrow> m' < \<bar>t - u * real j\<bar>))"
    unfolding s by blast
  from d show ?thesis
  proof
    assume "m' = 100 \<and> mi' = - 1 \<and> (\<forall>j \<in> {0, 1, 2, 3, 4::nat}. 100 \<le> \<bar>t - u * real j\<bar>)"
    then show ?thesis using r by (simp add: optimal_i_def upt_0_5)
  next
    assume "\<exists>k \<in> {0, 1, 2, 3, 4::nat}. mi' = int k \<and> m' = \<bar>t - u * real k\<bar> \<and> m' < 100 \<and>
         (\<forall>j \<in> {0, 1, 2, 3, 4::nat}. m' \<le> \<bar>t - u * real j\<bar>) \<and>
         (\<forall>j \<in> {0, 1, 2, 3, 4::nat}. j < k \<longrightarrow> m' < \<bar>t - u * real j\<bar>)"
    then obtain k where k: "k \<in> {0, 1, 2, 3, 4::nat}" "mi' = int k" "m' = \<bar>t - u * real k\<bar>"
      "m' < 100" "\<forall>j \<in> {0, 1, 2, 3, 4::nat}. m' \<le> \<bar>t - u * real j\<bar>"
      "\<forall>j \<in> {0, 1, 2, 3, 4::nat}. j < k \<longrightarrow> m' < \<bar>t - u * real j\<bar>" by blast
    have o: "optimal_i t u = Inr (int k)"
      using r k(2) by (simp add: optimal_i_def upt_0_5)
    have "\<exists>k \<in> {0, 1, 2, 3, 4::nat}. optimal_i t u = Inr (int k) \<and> \<bar>t - u * real k\<bar> < 100 \<and>
      (\<forall>j \<in> {0, 1, 2, 3, 4::nat}. \<bar>t - u * real k\<bar> \<le> \<bar>t - u * real j\<bar>) \<and>
      (\<forall>j \<in> {0, 1, 2, 3, 4::nat}. j < k \<longrightarrow> \<bar>t - u * real k\<bar> < \<bar>t - u * real j\<bar>)"
      by (rule bexI[of _ k]) (use k o in auto)
    then show ?thesis by blast
  qed
qed

lemma tensor_min_Min: "xs \<noteq> [] \<Longrightarrow> tensor_min xs = Inr (Min (set xs))"
proof (cases xs)
  case Nil
  assume "xs \<noteq> []"
  with Nil show ?thesis by simp
next
  case (Cons y ys)
  have "Min (set (y # ys)) = fold min ys y" by (rule Min.set_eq_fold)
  then show ?thesis using Cons by (simp add: tensor_min_def)
qed

lemma hd_filter_first:
  assumes "sorted_wrt (<) js" "k \<in> set js" "P k" "\<forall>j \<in> set js. j < k \<longrightarrow> \<not> P j"
  shows "hd (filter P js) = (k::nat)"
  using assms
proof (induction js)
  case Nil
  then show ?case by simp
next
  case (Cons j js)
  show ?case
  proof (cases "j = k")
    case True
    then show ?thesis using Cons.prems by simp
  next
    case False
    then have kin: "k \<in> set js" using Cons.prems by simp
    then have "j < k" using Cons.prems(1) by simp
    then have "\<not> P j" using Cons.prems(4) by simp
    moreover have "hd (filter P js) = k"
      using Cons.prems kin by (intro Cons.IH) simp_all
    ultimately show ?thesis by simp
  qed
qed

lemma optimal_i_is_nearest:
  assumes "\<exists>i \<in> {0, 1, 2, 3, 4::nat}. \<bar>t - u * real i\<bar> < 100"
  shows "\<exists>oi. optimal_i t u = Inr oi \<and> u * real_of_int oi = nearest_multiple t u"
proof -
  let ?S = "{0, 1, 2, 3, 4::nat}"
  let ?err = "\<lambda>i::nat. \<bar>t - u * real i\<bar>"
  have notall: "\<not> (\<forall>j \<in> ?S. 100 \<le> ?err j)"
    using assms by (meson not_le)
  from optimal_i_nearest[of t u] notall obtain k where
    k: "k \<in> ?S" and o: "optimal_i t u = Inr (int k)" and
    le: "\<forall>j \<in> ?S. ?err k \<le> ?err j" and
    lt: "\<forall>j \<in> ?S. j < k \<longrightarrow> ?err k < ?err j"
    by blast
  have s: "set (map ?err [0, 1, 2, 3, 4]) = ?err ` ?S" by simp
  have fin: "finite (?err ` ?S)" by simp
  have kin: "?err k \<in> ?err ` ?S" using k by (rule imageI)
  have mn: "Min (?err ` ?S) = ?err k"
  proof (rule Min_eqI[OF fin _ kin])
    fix y assume "y \<in> ?err ` ?S"
    then obtain j where "j \<in> ?S" "y = ?err j" by blast
    then show "?err k \<le> y" using le by blast
  qed
  have srt: "sorted_wrt (<) [0, 1, 2, 3, 4::nat]" by simp
  have kl: "k \<in> set [0, 1, 2, 3, 4::nat]" using k by simp
  have first: "\<forall>j \<in> set [0, 1, 2, 3, 4::nat]. j < k \<longrightarrow> \<not> (?err j = ?err k)"
  proof (intro ballI impI)
    fix j assume j: "j \<in> set [0, 1, 2, 3, 4::nat]" "j < k"
    have "set [0, 1, 2, 3, 4::nat] = ?S" by simp
    with j(1) have "j \<in> ?S" by blast
    with lt j(2) have "?err k < ?err j" by blast
    then show "\<not> (?err j = ?err k)" by linarith
  qed
  have h: "hd (filter (\<lambda>i. ?err i = ?err k) [0, 1, 2, 3, 4]) = k"
    using srt kl _ first by (rule hd_filter_first) simp
  have "nearest_multiple t u = u * real k"
    unfolding nearest_multiple_def Let_def upt_0_5 s mn h ..
  then show ?thesis using o by simp
qed

section \<open>The error of a grouping\<close>

lemma within_bound_iff:
  "within_bound arr u g =
     (\<forall>k < g. \<exists>i \<in> {0, 1, 2, 3, 4::nat}. \<bar>Min (set (segment arr g k)) - u * real i\<bar> < 100)"
proof -
  have s: "set [0, 1, 2, 3, 4::nat] = {0, 1, 2, 3, 4}" by simp
  show ?thesis
    unfolding within_bound_def list_all_iff list_ex_iff upt_0_5 s by auto
qed

lemma epg_facts:
  assumes "0 < g" "g \<le> n"
  shows "0 < n div g" "g * (n div g) \<le> (n::nat)"
proof -
  show "0 < n div g" using assms by (simp add: div_greater_zero_iff)
  show "g * (n div g) \<le> n" by simp
qed

lemma segment_length:
  assumes "0 < g" "g \<le> length arr" "k < g"
  shows "length (segment arr g k) =
           (if k = g - 1 then length arr - k * (length arr div g) else length arr div g)"
    and "k * (length arr div g) + length (segment arr g k) \<le> length arr"
    and "segment arr g k \<noteq> []"
proof -
  let ?e = "length arr div g"
  have e: "0 < ?e" "g * ?e \<le> length arr" using epg_facts[OF assms(1,2)] by simp_all
  have "Suc k \<le> g" using assms(3) by simp
  then have "Suc k * ?e \<le> g * ?e" by (rule mult_le_mono1)
  then have "k * ?e + ?e \<le> g * ?e" by simp
  then have k1: "k * ?e + ?e \<le> length arr" using e(2) by (rule le_trans)
  show l: "length (segment arr g k) =
           (if k = g - 1 then length arr - k * ?e else ?e)"
    unfolding segment_def Let_def using k1 by simp
  have k0: "k * ?e \<le> length arr" using k1 by simp
  show "k * ?e + length (segment arr g k) \<le> length arr"
  proof (cases "k = g - 1")
    case True
    then have "length (segment arr g k) = length arr - k * ?e" using l by simp
    then show ?thesis using k0 by simp
  next
    case False
    then have "length (segment arr g k) = ?e" using l by simp
    then show ?thesis using k1 by simp
  qed
  have "k * ?e < length arr" using k1 e(1) by linarith
  then have "0 < length arr - k * ?e" by simp
  then have "0 < length (segment arr g k)" unfolding l using e(1) by presburger
  then show "segment arr g k \<noteq> []" by simp
qed

lemma segment_nth:
  assumes "0 < g" "g \<le> length arr" "k < g" "j < length (segment arr g k)"
  shows "segment arr g k ! j = arr ! (k * (length arr div g) + j)"
proof -
  have le: "k * (length arr div g) + length (segment arr g k) \<le> length arr"
    by (rule segment_length(2)[OF assms(1-3)])
  show ?thesis
  proof (cases "k = g - 1")
    case True
    then have "segment arr g k = drop (k * (length arr div g)) arr"
      by (simp add: segment_def Let_def)
    then show ?thesis using le assms(4) by simp
  next
    case False
    then have s: "segment arr g k = take (length arr div g) (drop (k * (length arr div g)) arr)"
      by (simp add: segment_def Let_def)
    have "j < length arr div g" using assms(4) unfolding s by simp
    then show ?thesis unfolding s using le by simp
  qed
qed

lemma group_of_segment:
  assumes "0 < g" "g \<le> n" "k < g" "k * (n div g) \<le> j"
    and "k \<noteq> g - 1 \<longrightarrow> j < k * (n div g) + n div g"
  shows "group_of n g j = k"
proof -
  have e: "0 < n div g" using epg_facts(1)[OF assms(1,2)] .
  have ge: "k \<le> j div (n div g)"
    using assms(4) e by (simp add: less_eq_div_iff_mult_less_eq)
  show ?thesis
  proof (cases "k = g - 1")
    case True
    then show ?thesis unfolding group_of_def using ge by simp
  next
    case False
    then have "j < Suc k * (n div g)" using assms(5) by simp
    then have "j div (n div g) < Suc k" using e by (simp add: div_less_iff_less_mult)
    then have "j div (n div g) = k" using ge by simp
    moreover have "k \<le> g - 1" using assms(3) by simp
    ultimately show ?thesis unfolding group_of_def by simp
  qed
qed

lemma group_step_segment:
  "group_step arr u g (length arr div g) k (Er, Of) =
     (case tensor_min (segment arr g k) of
        Inl e \<Rightarrow> Inl e
      | Inr m \<Rightarrow>
          (case optimal_i m u of
             Inl e \<Rightarrow> Inl e
           | Inr oi \<Rightarrow>
               Inr (assign_slice Er (k * (length arr div g))
                      (map (\<lambda>v. \<bar>v - u * real_of_int oi\<bar>) (segment arr g k)),
                    assign_slice Of (k * (length arr div g))
                      (map (\<lambda>v. v - v + u * real_of_int oi) (segment arr g k)))))"
proof -
  have d: "(k + 1) * (length arr div g) - k * (length arr div g) = length arr div g"
    by simp
  show ?thesis
    unfolding group_step_def segment_def Let_def prod.case d ..
qed

lemma assign_slice_nth:
  assumes "i0 + length vs \<le> length xs"
  shows "length (assign_slice xs i0 vs) = length xs"
    and "j < i0 \<Longrightarrow> assign_slice xs i0 vs ! j = xs ! j"
    and "i0 \<le> j \<Longrightarrow> j < i0 + length vs \<Longrightarrow> assign_slice xs i0 vs ! j = vs ! (j - i0)"
proof -
  have l: "length (take i0 xs) = i0" using assms by simp
  show "length (assign_slice xs i0 vs) = length xs"
    unfolding assign_slice_def using assms by simp
  show "assign_slice xs i0 vs ! j = xs ! j" if "j < i0"
    unfolding assign_slice_def using that l by (simp add: nth_append)
  show "assign_slice xs i0 vs ! j = vs ! (j - i0)" if "i0 \<le> j" "j < i0 + length vs"
  proof -
    have "j - i0 < length vs" using that by linarith
    then show ?thesis
      unfolding assign_slice_def using that l by (simp add: nth_append)
  qed
qed

lemma group_targets_nth:
  "j < length arr \<Longrightarrow>
     group_targets arr u g ! j =
       nearest_multiple (Min (set (segment arr g (group_of (length arr) g j)))) u"
  unfolding group_targets_def by simp

lemma group_step_written:
  assumes g: "0 < g" "g \<le> length arr" and k: "k < g"
    and wb: "within_bound arr u g"
    and w: "written arr u g k (Er, Of)"
  shows "\<exists>s'. group_step arr u g (length arr div g) k (Er, Of) = Inr s' \<and>
           written arr u g (Suc k) s'"
proof -
  let ?e = "length arr div g"
  let ?seg = "segment arr g k"
  let ?i0 = "k * ?e"
  have sl: "?i0 + length ?seg \<le> length arr" "?seg \<noteq> []"
    using segment_length(2,3)[OF g k] by simp_all
  have len: "length ?seg = (if k = g - 1 then length arr - ?i0 else ?e)"
    using segment_length(1)[OF g k] .
  have tm: "tensor_min ?seg = Inr (Min (set ?seg))"
    using sl(2) by (rule tensor_min_Min)
  have "\<exists>i \<in> {0, 1, 2, 3, 4::nat}. \<bar>Min (set ?seg) - u * real i\<bar> < 100"
    using wb k unfolding within_bound_iff by blast
  from optimal_i_is_nearest[OF this] obtain oi where
    oi: "optimal_i (Min (set ?seg)) u = Inr oi"
        "u * real_of_int oi = nearest_multiple (Min (set ?seg)) u" by blast
  let ?T = "nearest_multiple (Min (set ?seg)) u"
  let ?Er' = "assign_slice Er ?i0 (map (\<lambda>v. \<bar>v - ?T\<bar>) ?seg)"
  let ?Of' = "assign_slice Of ?i0 (map (\<lambda>v. v - v + ?T) ?seg)"
  have st: "group_step arr u g ?e k (Er, Of) = Inr (?Er', ?Of')"
    unfolding group_step_segment tm using oi by simp
  have lEr: "length Er = length arr" and lOf: "length Of = length arr"
    using w unfolding written_def by simp_all
  have bEr: "?i0 + length (map (\<lambda>v. \<bar>v - ?T\<bar>) ?seg) \<le> length Er" using sl(1) lEr by simp
  have bOf: "?i0 + length (map (\<lambda>v. v - v + ?T) ?seg) \<le> length Of" using sl(1) lOf by simp
  have bound: "(if Suc k = g then length arr else Suc k * ?e) = ?i0 + length ?seg"
  proof (cases "Suc k = g")
    case True
    then have "k = g - 1" by simp
    then have "length ?seg = length arr - ?i0" using len by simp
    then show ?thesis using True sl(1) by simp
  next
    case False
    then have "k \<noteq> g - 1" using k by linarith
    then have "length ?seg = ?e" using len by simp
    then show ?thesis using False by simp
  qed
  have old: "(if k = g then length arr else ?i0) = ?i0" using k by simp
  have "written arr u g (Suc k) (?Er', ?Of')"
    unfolding written_def fst_conv snd_conv bound
  proof (intro conjI allI impI)
    show "length ?Er' = length arr" using assign_slice_nth(1)[OF bEr] lEr by simp
    show "length ?Of' = length arr" using assign_slice_nth(1)[OF bOf] lOf by simp
  next
    fix j assume j: "j < ?i0 + length ?seg"
    then have jn: "j < length arr" using sl(1) by simp
    show "?Er' ! j = \<bar>arr ! j - group_targets arr u g ! j\<bar>"
    proof (cases "j < ?i0")
      case True
      then have "?Er' ! j = Er ! j" using assign_slice_nth(2)[OF bEr] by simp
      then show ?thesis using w True unfolding written_def old by simp
    next
      case False
      then have ge: "?i0 \<le> j" by simp
      have js: "j - ?i0 < length ?seg" using j ge by simp
      have "?Er' ! j = map (\<lambda>v. \<bar>v - ?T\<bar>) ?seg ! (j - ?i0)"
        using assign_slice_nth(3)[OF bEr ge] j by simp
      also have "\<dots> = \<bar>?seg ! (j - ?i0) - ?T\<bar>" using js by simp
      also have "?seg ! (j - ?i0) = arr ! j"
        using segment_nth[OF g k js] ge by simp
      finally have a: "?Er' ! j = \<bar>arr ! j - ?T\<bar>" .
      have "k \<noteq> g - 1 \<longrightarrow> j < ?i0 + ?e"
      proof
        assume "k \<noteq> g - 1"
        then have "length ?seg = ?e" using len by simp
        then show "j < ?i0 + ?e" using j by simp
      qed
      then have "group_of (length arr) g j = k"
        using group_of_segment[OF g k ge] by simp
      then have "group_targets arr u g ! j = ?T" using group_targets_nth[OF jn] by simp
      then show ?thesis using a by simp
    qed
    show "?Of' ! j = group_targets arr u g ! j"
    proof (cases "j < ?i0")
      case True
      then have "?Of' ! j = Of ! j" using assign_slice_nth(2)[OF bOf] by simp
      then show ?thesis using w True unfolding written_def old by simp
    next
      case False
      then have ge: "?i0 \<le> j" by simp
      have js: "j - ?i0 < length ?seg" using j ge by simp
      have "?Of' ! j = map (\<lambda>v. v - v + ?T) ?seg ! (j - ?i0)"
        using assign_slice_nth(3)[OF bOf ge] j by simp
      also have "\<dots> = ?T" using js by simp
      finally have a: "?Of' ! j = ?T" .
      have "k \<noteq> g - 1 \<longrightarrow> j < ?i0 + ?e"
      proof
        assume "k \<noteq> g - 1"
        then have "length ?seg = ?e" using len by simp
        then show "j < ?i0 + ?e" using j by simp
      qed
      then have "group_of (length arr) g j = k"
        using group_of_segment[OF g k ge] by simp
      then have "group_targets arr u g ! j = ?T" using group_targets_nth[OF jn] by simp
      then show ?thesis using a by simp
    qed
  qed
  then show ?thesis using st by blast
qed

lemma group_err_loop_written:
  assumes g: "0 < g" "g \<le> length arr" and wb: "within_bound arr u g"
  shows "k \<le> g \<Longrightarrow> written arr u g k s \<Longrightarrow>
         \<exists>s'. group_err_loop arr u g (length arr div g) [k..<g] s = Inr s' \<and>
               written arr u g g s'"
proof (induction "g - k" arbitrary: k s)
  case 0
  then have "k = g" by simp
  then show ?case using "0.prems"(2) by simp
next
  case (Suc d)
  then have k: "k < g" by simp
  obtain Er Of where s: "s = (Er, Of)" by (cases s)
  from group_step_written[OF g k wb, of Er Of] Suc.prems(2) obtain s1 where
    s1: "group_step arr u g (length arr div g) k s = Inr s1" "written arr u g (Suc k) s1"
    unfolding s by blast
  have d: "d = g - Suc k" using Suc.hyps(2) by simp
  have "Suc k \<le> g" using k by simp
  from Suc.hyps(1)[OF d this s1(2)] obtain s' where
    s': "group_err_loop arr u g (length arr div g) [Suc k..<g] s1 = Inr s'"
        "written arr u g g s'" by blast
  have "[k..<g] = k # [Suc k..<g]" using k by (rule upt_conv_Cons)
  then have "group_err_loop arr u g (length arr div g) [k..<g] s = Inr s'"
    using s1(1) s'(1) by simp
  then show ?case using s'(2) by blast
qed

lemma written_all:
  assumes "written arr u g g (Er, Of)"
  shows "Of = group_targets arr u g"
    and "Er = map2 (\<lambda>v t. \<bar>v - t\<bar>) arr (group_targets arr u g)"
proof -
  have l: "length Er = length arr" "length Of = length arr"
    and a: "\<forall>j < length arr. Er ! j = \<bar>arr ! j - group_targets arr u g ! j\<bar> \<and>
                             Of ! j = group_targets arr u g ! j"
    using assms unfolding written_def by simp_all
  have lt: "length (group_targets arr u g) = length arr"
    unfolding group_targets_def by simp
  show "Of = group_targets arr u g"
    by (rule nth_equalityI) (use l lt a in simp_all)
  show "Er = map2 (\<lambda>v t. \<bar>v - t\<bar>) arr (group_targets arr u g)"
    by (rule nth_equalityI) (use l lt a in simp_all)
qed

text \<open>
  With at least \<open>g\<close> channels and every group within the bound, \<open>group_err\<close> returns the
  mean absolute error and the targets that the specification words.
\<close>

lemma group_err_refines:
  assumes "0 < g" "g \<le> length arr" "within_bound arr u g"
  shows "group_err arr u g = Inr (mean_abs_error arr u g, group_targets arr u g)"
proof -
  have w0: "written arr u g 0 (replicate (length arr) 0, replicate (length arr) 0)"
    unfolding written_def using assms(1) by simp
  from group_err_loop_written[OF assms, of 0, OF _ w0] obtain s' where
    s': "group_err_loop arr u g (length arr div g) [0..<g]
           (replicate (length arr) 0, replicate (length arr) 0) = Inr s'"
        "written arr u g g s'" by auto
  obtain Er Of where e: "s' = (Er, Of)" by (cases s')
  have r: "Of = group_targets arr u g"
    "Er = map2 (\<lambda>v t. \<bar>v - t\<bar>) arr (group_targets arr u g)"
    using written_all[of arr u g Er Of] s'(2) unfolding e by simp_all
  show ?thesis
    unfolding group_err_def Let_def mean_abs_error_def using assms(1) s'(1) e r by simp
qed

lemma group_err_short: "length arr < g \<Longrightarrow> isl (group_err arr u g)"
proof -
  assume a: "length arr < g"
  then have g: "0 < g" by simp
  have e: "length arr div g = 0" using a by simp
  have u: "[0..<g] = 0 # [Suc 0..<g]" using g by (rule upt_conv_Cons)
  have "segment arr g 0 = []"
  proof (cases "0 = g - 1")
    case True
    then have "g = 1" using g by simp
    then have "arr = []" using a by simp
    then show ?thesis by (simp add: segment_def)
  next
    case False
    then show ?thesis by (simp add: segment_def e)
  qed
  then have "group_step arr u g (length arr div g) 0 s = Inl RuntimeError" for s
    by (cases s) (simp add: group_step_segment tensor_min_def)
  then show ?thesis
    unfolding group_err_def Let_def u using g by simp
qed

section \<open>The search for the number of channel groups\<close>

text \<open>
  The loop over \<open>g\<close> keeps the first strict improvement on the running minimum, which starts
  at 100 with \<open>g = 0\<close>.
\<close>

lemma search_g_loop_spec:
  assumes "\<forall>g \<in> set gs. \<not> isl (group_err c unit g)"
    and "sorted_wrt (<) gs"
  shows "\<exists>m' mg'. search_g_loop c unit gs (m, mg) = Inr (m', mg') \<and>
     ((m' = m \<and> mg' = mg \<and> (\<forall>g \<in> set gs. m \<le> mae c unit g)) \<or>
      (mg' \<in> set gs \<and> m' = mae c unit mg' \<and> m' < m \<and>
       (\<forall>g \<in> set gs. m' \<le> mae c unit g) \<and>
       (\<forall>g \<in> set gs. g < mg' \<longrightarrow> m' < mae c unit g)))"
  using assms
proof (induction gs arbitrary: m mg)
  case Nil
  then show ?case by simp
next
  case (Cons g gs)
  from Cons.prems(1) obtain e o' where ge: "group_err c unit g = Inr (e, o')"
    by (cases "group_err c unit g") auto
  have e: "mae c unit g = e" by (simp add: mae_def ge)
  have rest: "\<forall>g \<in> set gs. \<not> isl (group_err c unit g)" "sorted_wrt (<) gs"
    using Cons.prems by simp_all
  have lt: "\<forall>g' \<in> set gs. g < g'" using Cons.prems(2) by simp
  show ?case
  proof (cases "m > e")
    case True
    from Cons.IH[OF rest, of e g] obtain m' mg' where
      r: "search_g_loop c unit gs (e, g) = Inr (m', mg')" and
      d: "(m' = e \<and> mg' = g \<and> (\<forall>g \<in> set gs. e \<le> mae c unit g)) \<or>
      (mg' \<in> set gs \<and> m' = mae c unit mg' \<and> m' < e \<and>
       (\<forall>g \<in> set gs. m' \<le> mae c unit g) \<and>
       (\<forall>g \<in> set gs. g < mg' \<longrightarrow> m' < mae c unit g))" by blast
    have s: "search_g_loop c unit (g # gs) (m, mg) = Inr (m', mg')"
      using True ge r by simp
    from d show ?thesis
    proof
      assume "m' = e \<and> mg' = g \<and> (\<forall>g \<in> set gs. e \<le> mae c unit g)"
      then show ?thesis using s e True lt by auto
    next
      assume "mg' \<in> set gs \<and> m' = mae c unit mg' \<and> m' < e \<and>
       (\<forall>g \<in> set gs. m' \<le> mae c unit g) \<and>
       (\<forall>g \<in> set gs. g < mg' \<longrightarrow> m' < mae c unit g)"
      then show ?thesis using s e True by auto
    qed
  next
    case False
    from Cons.IH[OF rest, of m mg] obtain m' mg' where
      r: "search_g_loop c unit gs (m, mg) = Inr (m', mg')" and
      d: "(m' = m \<and> mg' = mg \<and> (\<forall>g \<in> set gs. m \<le> mae c unit g)) \<or>
      (mg' \<in> set gs \<and> m' = mae c unit mg' \<and> m' < m \<and>
       (\<forall>g \<in> set gs. m' \<le> mae c unit g) \<and>
       (\<forall>g \<in> set gs. g < mg' \<longrightarrow> m' < mae c unit g))" by blast
    have s: "search_g_loop c unit (g # gs) (m, mg) = Inr (m', mg')"
      using False ge r by simp
    from d show ?thesis
    proof
      assume "m' = m \<and> mg' = mg \<and> (\<forall>g \<in> set gs. m \<le> mae c unit g)"
      then show ?thesis using s e False by auto
    next
      assume "mg' \<in> set gs \<and> m' = mae c unit mg' \<and> m' < m \<and>
       (\<forall>g \<in> set gs. m' \<le> mae c unit g) \<and>
       (\<forall>g \<in> set gs. g < mg' \<longrightarrow> m' < mae c unit g)"
      then show ?thesis using s e False by auto
    qed
  qed
qed

lemma upt_1_5: "[1..<5] = [1, 2, 3, 4::nat]"
  by (simp add: upt_rec)

lemma search_g_selects:
  assumes "\<forall>g \<in> {1, 2, 3, 4}. \<not> isl (group_err c unit g)"
    and "\<exists>g \<in> {1, 2, 3, 4}. mae c unit g < 100"
  shows "\<exists>g \<in> {1, 2, 3, 4}. search_g c unit = Inr (mae c unit g, g) \<and>
           (\<forall>g' \<in> {1, 2, 3, 4}. mae c unit g \<le> mae c unit g') \<and>
           (\<forall>g' \<in> {1, 2, 3, 4}. g' < g \<longrightarrow> mae c unit g < mae c unit g')"
proof -
  have s: "set [1, 2, 3, 4::nat] = {1, 2, 3, 4}" by simp
  have a: "\<forall>g \<in> set [1, 2, 3, 4::nat]. \<not> isl (group_err c unit g)"
    using assms(1) unfolding s .
  have b: "sorted_wrt (<) [1, 2, 3, 4::nat]" by simp
  from search_g_loop_spec[OF a b, of 100 0] obtain m' mg' where
    r: "search_g c unit = Inr (m', mg')" and
    d: "(m' = 100 \<and> mg' = 0 \<and> (\<forall>g \<in> {1, 2, 3, 4}. 100 \<le> mae c unit g)) \<or>
      (mg' \<in> {1, 2, 3, 4} \<and> m' = mae c unit mg' \<and> m' < 100 \<and>
       (\<forall>g \<in> {1, 2, 3, 4}. m' \<le> mae c unit g) \<and>
       (\<forall>g \<in> {1, 2, 3, 4}. g < mg' \<longrightarrow> m' < mae c unit g))"
    unfolding search_g_def upt_1_5 s by blast
  from d show ?thesis
  proof
    assume "m' = 100 \<and> mg' = 0 \<and> (\<forall>g \<in> {1, 2, 3, 4}. 100 \<le> mae c unit g)"
    then show ?thesis using assms(2) by fastforce
  next
    assume h: "mg' \<in> {1, 2, 3, 4} \<and> m' = mae c unit mg' \<and> m' < 100 \<and>
       (\<forall>g \<in> {1, 2, 3, 4}. m' \<le> mae c unit g) \<and>
       (\<forall>g \<in> {1, 2, 3, 4}. g < mg' \<longrightarrow> m' < mae c unit g)"
    show ?thesis
      by (rule bexI[of _ mg']) (use h r in auto)
  qed
qed


lemma tie_bound:
  "within_bound [- 0.3, - 0.3, - 0.6, - 0.6] (- 0.3) 1"
  "within_bound [- 0.3, - 0.3, - 0.6, - 0.6] (- 0.3) 2"
  "within_bound [- 0.3, - 0.3, - 0.6, - 0.6] (- 0.3) 3"
  "within_bound [- 0.3, - 0.3, - 0.6, - 0.6] (- 0.3) 4"
  by code_simp+

lemma tie_errors:
  "mean_abs_error [- 0.3, - 0.3, - 0.6, - 0.6] (- 0.3) 1 = 3 / 20"
  "mean_abs_error [- 0.3, - 0.3, - 0.6, - 0.6] (- 0.3) 2 = 0"
  "mean_abs_error [- 0.3, - 0.3, - 0.6, - 0.6] (- 0.3) 3 = 0"
  "mean_abs_error [- 0.3, - 0.3, - 0.6, - 0.6] (- 0.3) 4 = 0"
  by code_simp+


text \<open>
  C9. The search is to select the \<open>g\<close> of 1, 2, 3, 4 with the least mean absolute error,
  the smallest on a tie, and the code does not for every vector of minima. Its running
  minimum starts at the bound 100 with the placeholder \<open>g = 0\<close>, and the placeholder is
  never checked: with the minima \<open>[0, 0, 0, 0, 0, 1000]\<close> after a ReLU (offset unit 0) every
  group is within the bound of \<open>optimal_i\<close> and every \<open>g\<close> has the error \<open>500 / 3\<close>, so no
  \<open>g\<close> replaces the placeholder, the search ends with \<open>g = 0\<close> where the least error is
  that of \<open>g = 1\<close>, and the hook divides by zero. With two channels the search does not end
  either: for \<open>g = 3\<close> the first group is empty and \<^verbatim>\<open>min\<close> raises.
\<close>

theorem group_search_sentinel_escapes:
  "search_g [0, 0, 0, 0, 0, 1000] 0 = Inr (100, 0) \<and>
   map (mean_abs_error [0, 0, 0, 0, 0, 1000] 0) [1, 2, 3, 4] = [500 / 3, 500 / 3, 500 / 3, 500 / 3] \<and>
   map (within_bound [0, 0, 0, 0, 0, 1000] 0) [1, 2, 3, 4] = [True, True, True, True] \<and>
   forward_off_hook False example_relu_conv
     \<lparr>target = 0, in_shape = [1, 6, 14, 14], out_shape = [1, 8, 14, 14],
      c_min = [0, 0, 0, 0, 0, 1000]\<rparr> = Inl ZeroDivisionError \<and>
   search_g [- 0.2, - 0.1] (- 0.2784645427610738) = Inl RuntimeError"
  by code_simp

text \<open>
  Where the placeholder is replaced, the search does what it is to do. For at least four
  channels, every group of every \<open>g\<close> of 1, 2, 3, 4 within 100 of a multiple of the offset
  unit, and a mean absolute error below 100 for at least one \<open>g\<close>, the search selects a \<open>g\<close>
  of 1, 2, 3, 4 whose mean absolute error is the least of the four, and every smaller \<open>g\<close>
  has a strictly larger error: ties go to the smallest \<open>g\<close>. The groups, the targets and
  the error are those of the specification's words.
\<close>

theorem group_search_selects_least_minimum:
  assumes "4 \<le> length c"
    and "\<forall>g \<in> {1, 2, 3, 4}. within_bound c u g"
    and "\<exists>g \<in> {1, 2, 3, 4}. mean_abs_error c u g < 100"
  shows "\<exists>g \<in> {1, 2, 3, 4}. search_g c u = Inr (mean_abs_error c u g, g) \<and>
           (\<forall>g' \<in> {1, 2, 3, 4}. mean_abs_error c u g \<le> mean_abs_error c u g') \<and>
           (\<forall>g' \<in> {1, 2, 3, 4}. g' < g \<longrightarrow> mean_abs_error c u g < mean_abs_error c u g')"
proof -
  have r: "group_err c u g = Inr (mean_abs_error c u g, group_targets c u g)"
    if "g \<in> {1, 2, 3, 4}" for g
  proof -
    have "0 < g" "g \<le> length c" using that assms(1) by auto
    moreover have "within_bound c u g" using that assms(2) by blast
    ultimately show ?thesis by (rule group_err_refines)
  qed
  have m: "mae c u g = mean_abs_error c u g" if "g \<in> {1, 2, 3, 4}" for g
    unfolding mae_def r[OF that] by simp
  have a: "\<forall>g \<in> {1, 2, 3, 4}. \<not> isl (group_err c u g)"
    using r by simp
  have b: "\<exists>g \<in> {1, 2, 3, 4}. mae c u g < 100"
    using assms(3) m by auto
  from search_g_selects[OF a b] obtain g where
    g: "g \<in> {1, 2, 3, 4}" "search_g c u = Inr (mae c u g, g)"
      "\<forall>g' \<in> {1, 2, 3, 4}. mae c u g \<le> mae c u g'"
      "\<forall>g' \<in> {1, 2, 3, 4}. g' < g \<longrightarrow> mae c u g < mae c u g'"
    by blast
  show ?thesis
  proof (rule bexI[OF _ g(1)], intro conjI ballI impI)
    show "search_g c u = Inr (mean_abs_error c u g, g)" using g(2) m[OF g(1)] by simp
  next
    fix g' assume h: "g' \<in> {1, 2, 3, 4::nat}"
    from g(3) h have "mae c u g \<le> mae c u g'" by blast
    then show "mean_abs_error c u g \<le> mean_abs_error c u g'"
      unfolding m[OF g(1)] m[OF h] .
  next
    fix g' assume h: "g' \<in> {1, 2, 3, 4::nat}" "g' < g"
    from g(4) h have "mae c u g < mae c u g'" by blast
    then show "mean_abs_error c u g < mean_abs_error c u g'"
      unfolding m[OF g(1)] m[OF h(1)] .
  qed
qed


theorem group_search_selects_least_minimum_witness:
  "search_g [- 0.3, - 0.3, - 0.6, - 0.6] (- 0.3) = Inr (0, 2) \<and>
   map (mean_abs_error [- 0.3, - 0.3, - 0.6, - 0.6] (- 0.3)) [1, 2, 3, 4] = [3 / 20, 0, 0, 0]"
proof -
  let ?c = "[- 0.3, - 0.3, - 0.6, - 0.6] :: real list"
  note m = tie_errors
  have l: "4 \<le> length ?c" by simp
  have a: "\<forall>g \<in> {1, 2, 3, 4}. within_bound ?c (- 0.3) g"
    using tie_bound by simp
  have b: "\<exists>g \<in> {1, 2, 3, 4}. mean_abs_error ?c (- 0.3) g < 100"
    using m by simp
  from group_search_selects_least_minimum[OF l a b] obtain g where
    g: "g \<in> {1, 2, 3, 4}" "search_g ?c (- 0.3) = Inr (mean_abs_error ?c (- 0.3) g, g)"
      "\<forall>g' \<in> {1, 2, 3, 4}. mean_abs_error ?c (- 0.3) g \<le> mean_abs_error ?c (- 0.3) g'"
      "\<forall>g' \<in> {1, 2, 3, 4}. g' < g \<longrightarrow> mean_abs_error ?c (- 0.3) g < mean_abs_error ?c (- 0.3) g'"
    by blast
  have "g = 2" using g(1,3,4) m by auto
  then show ?thesis using g(2) m by simp
qed


section \<open>Initialization\<close>

lemma tensor_max_Max: "w \<noteq> [] \<Longrightarrow> tensor_max w = Inr (Max (set w))"
proof (cases w)
  case Nil
  assume "w \<noteq> []"
  with Nil show ?thesis by simp
next
  case (Cons y ys)
  have "Max (set (y # ys)) = fold max ys y" by (rule Max.set_eq_fold)
  then show ?thesis using Cons by (simp add: tensor_max_def)
qed

lemma tensor_max_Inr: "tensor_max w = Inr mx \<Longrightarrow> w \<noteq> [] \<and> mx = Max (set w)"
  using tensor_max_Max[of w] by (cases w) (auto simp: tensor_max_def)

lemma eval_module_weight: "module_weight (eval_module m) = module_weight m"
  by (cases m) (simp_all add: eval_module_def module_weight_def)

lemma forward_hook_weight:
  "forward_hook cl m c = Inr m' \<Longrightarrow> weight m' = weight m"
  unfolding forward_hook_def Let_def by (auto split: sum.splits)

lemma forward_off_hook_weight:
  "forward_off_hook cl m c = Inr m' \<Longrightarrow> weight m' = weight m"
  unfolding forward_off_hook_def Let_def
  by (auto split: sum.splits if_splits option.splits offset.splits)

lemma run_hooks_weight:
  "run_hooks cl m c = Inr m' \<Longrightarrow> module_weight m' = module_weight m"
  unfolding run_hooks_def module_weight_def
  by (cases m) (auto split: sum.splits dest!: forward_hook_weight forward_off_hook_weight)

lemma run_calls_weight:
  "run_calls cl model cs = Inr model' \<Longrightarrow>
     length model' = length model \<and>
     (\<forall>i < length model. module_weight (model' ! i) = module_weight (model ! i))"
proof (induction cs arbitrary: model)
  case Nil
  then show ?case by simp
next
  case (Cons c cs)
  show ?case
  proof (cases "target c < length model")
    case True
    from Cons.prems True obtain m' where
      m': "run_hooks cl (model ! target c) c = Inr m'" and
      r: "run_calls cl (model[target c := m']) cs = Inr model'"
      by (auto split: sum.splits)
    have w: "module_weight m' = module_weight (model ! target c)"
      using m' by (rule run_hooks_weight)
    from Cons.IH[OF r] have
      l: "length model' = length model" and
      a: "\<forall>i < length model. module_weight (model' ! i) = module_weight (model[target c := m'] ! i)"
      by simp_all
    have "module_weight (model[target c := m'] ! i) = module_weight (model ! i)"
      if "i < length model" for i
      using that w by (cases "i = target c") simp_all
    then show ?thesis using l a by simp
  next
    case False
    then show ?thesis using Cons by simp
  qed
qed

lemma eval_module_eval: "in_eval_mode (eval_module m)"
  by (cases m) (simp_all add: eval_module_def eval_quantizer_def in_eval_mode_def)

lemma forward_hook_quantizers:
  "forward_hook cl m c = Inr m' \<Longrightarrow> a_quant m' = a_quant m \<and> w_quant m' = w_quant m"
  unfolding forward_hook_def Let_def by (auto split: sum.splits)

lemma forward_off_hook_training:
  "forward_off_hook cl m c = Inr m' \<Longrightarrow>
     training (a_quant m') = training (a_quant m) \<and> w_quant m' = w_quant m"
  unfolding forward_off_hook_def Let_def
  by (auto split: sum.splits if_splits option.splits offset.splits)

lemma run_hooks_eval:
  assumes "run_hooks cl m c = Inr m'" "in_eval_mode m"
  shows "in_eval_mode m'"
proof (cases m)
  case (Q_Conv2d qc)
  from assms(1) obtain qc1 qc2 where
    h: "forward_hook cl qc c = Inr qc1" "forward_off_hook cl qc1 c = Inr qc2"
       "m' = Q_Conv2d qc2"
    unfolding run_hooks_def Q_Conv2d by (auto split: sum.splits)
  have "training (a_quant qc2) = training (a_quant qc)" "w_quant qc2 = w_quant qc"
    using forward_hook_quantizers[OF h(1)] forward_off_hook_training[OF h(2)] by simp_all
  then show ?thesis using assms(2) unfolding h(3) Q_Conv2d in_eval_mode_def by simp
next
  case (Q_Linear l)
  then show ?thesis using assms unfolding run_hooks_def by simp
next
  case (Conv2d pc)
  then show ?thesis using assms unfolding run_hooks_def in_eval_mode_def
    by (auto split: sum.splits)
next
  case Other
  then show ?thesis using assms unfolding run_hooks_def by simp
qed

lemma run_calls_eval:
  "run_calls cl model cs = Inr model' \<Longrightarrow> \<forall>i < length model. in_eval_mode (model ! i) \<Longrightarrow>
     \<forall>i < length model. in_eval_mode (model' ! i)"
proof (induction cs arbitrary: model)
  case Nil
  then show ?case by simp
next
  case (Cons c cs)
  show ?case
  proof (cases "target c < length model")
    case True
    from Cons.prems(1) True obtain m' where
      m': "run_hooks cl (model ! target c) c = Inr m'" and
      r: "run_calls cl (model[target c := m']) cs = Inr model'"
      by (auto split: sum.splits)
    have "in_eval_mode (model ! target c)" using Cons.prems(2) True by simp
    with m' have e: "in_eval_mode m'" by (rule run_hooks_eval)
    have "in_eval_mode (model[target c := m'] ! i)" if "i < length model" for i
      using that e Cons.prems(2) by (cases "i = target c") simp_all
    then have "\<forall>i < length (model[target c := m']). in_eval_mode (model[target c := m'] ! i)"
      by simp
    from Cons.IH[OF r this] show ?thesis by simp
  next
    case False
    then show ?thesis using Cons by simp
  qed
qed

text \<open>The calibration pass keeps the modules and their weights, in evaluation mode.\<close>

lemma sample_activation_size_keeps:
  assumes "sample_activation_size model x cl = Inr mid"
  shows "length mid = length model"
    and "\<forall>i < length model. in_eval_mode (mid ! i) \<and>
           module_weight (mid ! i) = module_weight (model ! i)"
proof -
  have r: "run_calls cl (map eval_module model) x = Inr mid"
    using assms unfolding sample_activation_size_def .
  from run_calls_weight[OF r] show l: "length mid = length model" by simp
  have w: "\<forall>i < length model. module_weight (mid ! i) = module_weight (model ! i)"
    using run_calls_weight[OF r] by (simp add: eval_module_weight)
  have "\<forall>i < length (map eval_module model). in_eval_mode (map eval_module model ! i)"
    by (simp add: eval_module_eval)
  from run_calls_eval[OF r this] have "\<forall>i < length model. in_eval_mode (mid ! i)" by simp
  then show "\<forall>i < length model. in_eval_mode (mid ! i) \<and>
           module_weight (mid ! i) = module_weight (model ! i)"
    using w by simp
qed

lemma initialize_module_first:
  "initialize_module ''first'' m = Inr m' \<Longrightarrow> seeded_from m m'"
  unfolding initialize_module_def seeded_from_def
  by (cases m) (auto split: sum.splits dest: tensor_max_Inr)

lemma initialize_loop_first:
  "initialize_loop ''first'' model = Inr model' \<Longrightarrow>
     length model' = length model \<and>
     (\<forall>i < length model. seeded_from (model ! i) (model' ! i))"
proof (induction model arbitrary: model')
  case Nil
  then show ?case by simp
next
  case (Cons m ms)
  from Cons.prems obtain m' ms' where
    m': "initialize_module ''first'' m = Inr m'" and
    ms': "initialize_loop ''first'' ms = Inr ms'" and
    e: "model' = m' # ms'"
    by (auto split: sum.splits)
  have hd: "seeded_from m m'" using m' by (rule initialize_module_first)
  from Cons.IH[OF ms'] have
    l: "length ms' = length ms" and
    t: "\<forall>i < length ms. seeded_from (ms ! i) (ms' ! i)"
    by simp_all
  have "seeded_from ((m # ms) ! i) (model' ! i)" if "i < length (m # ms)" for i
    using that hd t unfolding e by (cases i) simp_all
  then show ?case using l e by simp
qed

lemma initialize_loop_finetune:
  "\<exists>frozen. initialize_loop ''finetune'' model = Inr frozen \<and>
     length frozen = length model \<and>
     (\<forall>i < length model. frozen_from (model ! i) (frozen ! i))"
proof (induction model)
  case Nil
  then show ?case by simp
next
  case (Cons m ms)
  then obtain ms' where
    ms': "initialize_loop ''finetune'' ms = Inr ms'" and
    l: "length ms' = length ms" and
    t: "\<forall>i < length ms. frozen_from (ms ! i) (ms' ! i)"
    by blast
  obtain m' where m': "initialize_module ''finetune'' m = Inr m'" and hd: "frozen_from m m'"
    unfolding initialize_module_def frozen_from_def by (cases m) simp_all
  have r: "initialize_loop ''finetune'' (m # ms) = Inr (m' # ms')"
    using m' ms' by simp
  have "frozen_from ((m # ms) ! i) ((m' # ms') ! i)" if "i < length (m # ms)" for i
    using that hd t by (cases i) simp_all
  then show ?case using r l by (intro exI[of _ "m' # ms'"]) simp
qed

lemma example_calibration:
  "sample_activation_size [Q_Conv2d example_hswish_conv, Q_Linear example_linear]
       [example_call] False =
     Inr [Q_Conv2d (example_hswish_conv_first
                      \<lparr>w_quant := (w_quant example_hswish_conv_first)\<lparr>raw_alpha := 6\<rparr>\<rparr>),
          Q_Linear (example_linear_first
                      \<lparr>lin_w_quant := (lin_w_quant example_linear_first)\<lparr>raw_alpha := 1\<rparr>\<rparr>)]"
  by code_simp

lemma example_first_run:
  "initialize_Q [Q_Conv2d example_hswish_conv, Q_Linear example_linear] ''first''
       (Some [example_call]) False =
     Inr [Q_Conv2d example_hswish_conv_first, Q_Linear example_linear_first]"
  by code_simp

text \<open>
  C7, as the specification states it, fails on the code: the mode \<open>first\<close> sets the scale
  parameter of a weight quantizer to the largest element of the weight, not to its largest
  absolute value. For the convolution with the weight \<open>[1/2, -3/2, 1/4, 0]\<close> it is \<open>1/2\<close>
  where the largest magnitude is \<open>3/2\<close>, and for the linear operator with the weight
  \<open>[-5, 2]\<close> it is 2 where the largest magnitude is 5.
\<close>

theorem weight_scale_seed_counterexample:
  "initialize_Q [Q_Conv2d example_hswish_conv, Q_Linear example_linear] ''first''
       (Some [example_call]) False =
     Inr [Q_Conv2d example_hswish_conv_first, Q_Linear example_linear_first] \<and>
   raw_alpha (w_quant example_hswish_conv_first) = 1 / 2 \<and>
   max_magnitude (weight example_hswish_conv) = 3 / 2 \<and>
   raw_alpha (lin_w_quant example_linear_first) = 2 \<and>
   max_magnitude (lin_weight example_linear) = 5"
  by (simp add: example_first_run)
    (simp add: example_linear_def example_linear_first_def example_hswish_conv_def
      example_hswish_conv_first_def max_magnitude_def)

text \<open>
  C7, amended. With the mode \<open>first\<close> and a sample input, \<open>initialize_Q\<close> runs the
  calibration pass and raises what the pass raises; when it returns, the pass has returned
  the modules in evaluation mode with the weights they had, and the result is the result of
  the pass with, in every quantized operator, the parameter \<open>_alpha\<close> of the weight
  quantizer set to the largest element of the weight (the maximum, not the maximum of the
  absolute values) and nothing else changed. Without a sample input the mode \<open>first\<close> fails
  its assertion. With the mode \<open>finetune\<close> it needs no sample input, returns, and the
  result is the model with \<open>requires_grad\<close> of the weight and of the activation bitwidth
  logit of every quantized operator false and nothing else changed.
\<close>

theorem initialize_Q_modes:
  "(initialize_Q model ''first'' (Some x) cl = Inr model' \<longrightarrow>
      (\<exists>mid. sample_activation_size model x cl = Inr mid \<and>
         length mid = length model \<and> length model' = length model \<and>
         (\<forall>i < length model.
            in_eval_mode (mid ! i) \<and>
            module_weight (mid ! i) = module_weight (model ! i) \<and>
            seeded_from (mid ! i) (model' ! i)))) \<and>
   (sample_activation_size model x cl = Inl e \<longrightarrow>
      initialize_Q model ''first'' (Some x) cl = Inl e) \<and>
   initialize_Q model ''first'' None cl = Inl AssertionError \<and>
   (\<exists>frozen. initialize_Q model ''finetune'' None cl = Inr frozen \<and>
      length frozen = length model \<and>
      (\<forall>i < length model. frozen_from (model ! i) (frozen ! i)))"
proof -
  have p1: "initialize_Q model ''first'' (Some x) cl = Inr model' \<longrightarrow>
      (\<exists>mid. sample_activation_size model x cl = Inr mid \<and>
         length mid = length model \<and> length model' = length model \<and>
         (\<forall>i < length model.
            in_eval_mode (mid ! i) \<and>
            module_weight (mid ! i) = module_weight (model ! i) \<and>
            seeded_from (mid ! i) (model' ! i)))"
  proof
    assume a: "initialize_Q model ''first'' (Some x) cl = Inr model'"
    then obtain mid where
      mid: "sample_activation_size model x cl = Inr mid" and
      fin: "initialize_loop ''first'' mid = Inr model'"
      unfolding initialize_Q_def by (auto split: sum.splits)
    note k = sample_activation_size_keeps[OF mid]
    from initialize_loop_first[OF fin] have
      lf: "length model' = length mid" and
      sf: "\<forall>i < length mid. seeded_from (mid ! i) (model' ! i)"
      by simp_all
    have "length mid = length model \<and> length model' = length model \<and>
         (\<forall>i < length model.
            in_eval_mode (mid ! i) \<and>
            module_weight (mid ! i) = module_weight (model ! i) \<and>
            seeded_from (mid ! i) (model' ! i))"
      using k lf sf by simp
    then show "\<exists>mid. sample_activation_size model x cl = Inr mid \<and>
         length mid = length model \<and> length model' = length model \<and>
         (\<forall>i < length model.
            in_eval_mode (mid ! i) \<and>
            module_weight (mid ! i) = module_weight (model ! i) \<and>
            seeded_from (mid ! i) (model' ! i))"
      using mid by blast
  qed
  have p2: "sample_activation_size model x cl = Inl e \<longrightarrow>
      initialize_Q model ''first'' (Some x) cl = Inl e"
    by (simp add: initialize_Q_def)
  have p3: "initialize_Q model ''first'' None cl = Inl AssertionError"
    by (simp add: initialize_Q_def)
  have p4: "\<exists>frozen. initialize_Q model ''finetune'' None cl = Inr frozen \<and>
      length frozen = length model \<and>
      (\<forall>i < length model. frozen_from (model ! i) (frozen ! i))"
    using initialize_loop_finetune[of model] by (simp add: initialize_Q_def)
  show ?thesis using p1 p2 p3 p4 by (intro conjI)
qed

theorem initialize_Q_modes_witness:
  "initialize_Q [Q_Conv2d example_hswish_conv, Q_Linear example_linear] ''first''
       (Some [example_call]) False =
     Inr [Q_Conv2d example_hswish_conv_first, Q_Linear example_linear_first] \<and>
   (\<exists>mid. sample_activation_size [Q_Conv2d example_hswish_conv, Q_Linear example_linear]
             [example_call] False = Inr mid \<and>
      mid = [Q_Conv2d (example_hswish_conv_first
                         \<lparr>w_quant := (w_quant example_hswish_conv_first)\<lparr>raw_alpha := 6\<rparr>\<rparr>),
             Q_Linear (example_linear_first
                         \<lparr>lin_w_quant := (lin_w_quant example_linear_first)\<lparr>raw_alpha := 1\<rparr>\<rparr>)] \<and>
      in_eval_mode (mid ! 0) \<and> in_eval_mode (mid ! 1) \<and>
      seeded_from (mid ! 0) (Q_Conv2d example_hswish_conv_first) \<and>
      seeded_from (mid ! 1) (Q_Linear example_linear_first)) \<and>
   (\<exists>frozen. initialize_Q [Q_Conv2d example_hswish_conv, Q_Linear example_linear]
                ''finetune'' None False = Inr frozen \<and>
      frozen_from (Q_Conv2d example_hswish_conv) (frozen ! 0) \<and>
      frozen_from (Q_Linear example_linear) (frozen ! 1))"
proof -
  let ?M = "[Q_Conv2d example_hswish_conv, Q_Linear example_linear]"
  let ?F = "[Q_Conv2d example_hswish_conv_first, Q_Linear example_linear_first]"
  note t = initialize_Q_modes[of ?M "[example_call]" False ?F]
  from t example_first_run obtain mid where
    mid: "sample_activation_size ?M [example_call] False = Inr mid"
      "\<forall>i < length ?M. in_eval_mode (mid ! i) \<and>
            module_weight (mid ! i) = module_weight (?M ! i) \<and>
            seeded_from (mid ! i) (?F ! i)"
    by blast
  have e: "mid = [Q_Conv2d (example_hswish_conv_first
                         \<lparr>w_quant := (w_quant example_hswish_conv_first)\<lparr>raw_alpha := 6\<rparr>\<rparr>),
             Q_Linear (example_linear_first
                         \<lparr>lin_w_quant := (lin_w_quant example_linear_first)\<lparr>raw_alpha := 1\<rparr>\<rparr>)]"
    using mid(1) unfolding example_calibration by simp
  have m0: "in_eval_mode (mid ! 0) \<and> seeded_from (mid ! 0) (Q_Conv2d example_hswish_conv_first)"
    using mid(2)[rule_format, of 0] by simp
  have m1: "in_eval_mode (mid ! 1) \<and> seeded_from (mid ! 1) (Q_Linear example_linear_first)"
    using mid(2)[rule_format, of 1] by simp
  from t obtain frozen where
    fr: "initialize_Q ?M ''finetune'' None False = Inr frozen"
      "\<forall>i < length ?M. frozen_from (?M ! i) (frozen ! i)"
    by blast
  have f0: "frozen_from (Q_Conv2d example_hswish_conv) (frozen ! 0)"
    using fr(2)[rule_format, of 0] by simp
  have f1: "frozen_from (Q_Linear example_linear) (frozen ! 1)"
    using fr(2)[rule_format, of 1] by simp
  show ?thesis using example_first_run mid(1) e m0 m1 fr(1) f0 f1 by blast
qed

end
